theory Spec2Isabelle
  imports Main "HOL-Library.Sublist"
begin

section \<open>Content fetcher: data-loader.js\<close>

subsection \<open>JSON values and JavaScript truthiness\<close>

text \<open>
  The payloads are whatever \<open>response.json()\<close> resolves to. An object is kept as the
  list of its own properties, in order, with distinct keys (as \<open>JSON.parse\<close> builds it).
\<close>

datatype json =
    JNull
  | JBool bool
  | JNum int
  | JStr string
  | JArr "json list"
  | JObj "(string \<times> json) list"

text \<open>The test of \<open>if (v)\<close> and of \<open>v || w\<close> on a JSON value.\<close>

fun truthy :: "json \<Rightarrow> bool" where
  "truthy JNull = False"
| "truthy (JBool b) = b"
| "truthy (JNum n) = (n \<noteq> 0)"
| "truthy (JStr s) = (s \<noteq> [])"
| "truthy (JArr xs) = True"
| "truthy (JObj kvs) = True"

subsection \<open>Errors, responses and the network\<close>

text \<open>
  What a promise of the loader can reject with. \<open>NetworkError\<close> is the rejection of
  \<open>fetch\<close> itself, \<open>HttpError\<close> the \<open>new Error('HTTP error! status: ...')\<close> of
  \<open>fetchData\<close>, \<open>SyntaxError\<close> the rejection of \<open>response.json()\<close> on a body that
  is not JSON, \<open>TypeError\<close> a property read on \<open>null\<close>. \<open>DataUnavailable\<close> is the
  error of the specification's taxonomy (a resource name and the last error); it is
  here so that statements about it can be written, and no function below builds it.
\<close>

datatype error =
    NetworkError
  | HttpError nat
  | SyntaxError
  | TypeError
  | DataUnavailable string error

text \<open>
  A response: \<open>response.ok\<close>, \<open>response.status\<close>, and what \<open>response.json()\<close> gives
  (\<open>None\<close> when the body does not parse).
\<close>

record response =
  ok :: bool
  status :: nat
  body :: "json option"

text \<open>The global \<open>fetch\<close>: a URL to a rejection or a response.\<close>

type_synonym network = "string \<Rightarrow> error + response"

subsection \<open>Configuration and the session cache\<close>

record local_paths =
  projects :: string
  about :: string
  contact :: string
  header :: string

record api_config =
  USE_CMS_API :: bool
  CMS_BASE_URL :: string
  LOCAL_PATHS :: local_paths

definition API_CONFIG :: api_config where
  "API_CONFIG =
     \<lparr> USE_CMS_API = True,
       CMS_BASE_URL = ''https://dxp-dubai-cms-cop4.vercel.app/api'',
       LOCAL_PATHS = \<lparr> projects = ''data/project.json'',
                       about = ''data/about.json'',
                       contact = ''data/contact.json'',
                       header = ''data/header.json'' \<rparr> \<rparr>"

text \<open>
  The module state: the object \<open>cache\<close>, and the URLs handed to \<open>fetch\<close> so far, oldest
  first (the instrument that counts network accesses). Console output is left out.
\<close>

record loader =
  cache :: "string \<rightharpoonup> json"
  requests :: "string list"

text \<open>\<open>if (cache[cacheKey])\<close>: an entry counts only when its value is truthy.\<close>

definition cached :: "loader \<Rightarrow> string \<Rightarrow> json option" where
  "cached s k = (case cache s k of None \<Rightarrow> None
                 | Some v \<Rightarrow> if truthy v then Some v else None)"

text \<open>\<open>await fetch(url)\<close>, recorded.\<close>

definition do_fetch :: "network \<Rightarrow> string \<Rightarrow> loader \<Rightarrow> (error + response) \<times> loader" where
  "do_fetch net url s = (net url, s\<lparr>requests := requests s @ [url]\<rparr>)"

text \<open>\<open>await response.json()\<close>.\<close>

definition response_json :: "response \<Rightarrow> error + json" where
  "response_json r = (case body r of None \<Rightarrow> Inl SyntaxError | Some d \<Rightarrow> Inr d)"

text \<open>
  The body of the outer \<open>try\<close> after the request: the status check, then the parse.
\<close>

definition primary_outcome :: "error + response \<Rightarrow> error + json" where
  "primary_outcome r =
     (case r of
        Inl e \<Rightarrow> Inl e
      | Inr resp \<Rightarrow> if \<not> ok resp then Inl (HttpError (status resp)) else response_json resp)"

text \<open>The body of the inner \<open>try\<close>: the parse only, \<open>response.ok\<close> is not read.\<close>

definition fallback_outcome :: "error + response \<Rightarrow> error + json" where
  "fallback_outcome r = (case r of Inl e \<Rightarrow> Inl e | Inr resp \<Rightarrow> response_json resp)"

subsection \<open>fetchData and the four entry points\<close>

definition fetchData ::
  "api_config \<Rightarrow> network \<Rightarrow> string \<Rightarrow> string \<Rightarrow> loader \<Rightarrow> (error + json) \<times> loader" where
  "fetchData cfg net endpoint localPath s =
     (let cacheKey = (if endpoint \<noteq> [] then endpoint else localPath) in
      case cached s cacheKey of
        Some v \<Rightarrow> (Inr v, s)
      | None \<Rightarrow>
          (let url = (if USE_CMS_API cfg then CMS_BASE_URL cfg @ ''/'' @ endpoint
                      else localPath);
               (r1, s1) = do_fetch net url s
           in case primary_outcome r1 of
                Inr data \<Rightarrow> (Inr data, s1\<lparr>cache := (cache s1)(cacheKey \<mapsto> data)\<rparr>)
              | Inl err \<Rightarrow>
                  if USE_CMS_API cfg \<and> localPath \<noteq> [] then
                    (let (r2, s2) = do_fetch net localPath s1
                     in case fallback_outcome r2 of
                          Inr data \<Rightarrow> (Inr data, s2\<lparr>cache := (cache s2)(cacheKey \<mapsto> data)\<rparr>)
                        | Inl fallbackError \<Rightarrow> (Inl fallbackError, s2))
                  else (Inl err, s1)))"

text \<open>
  \<open>data.projects\<close>: the property of an object, \<open>undefined\<close> (\<open>None\<close>) on any other
  value but \<open>null\<close>, where the read throws.
\<close>

fun get_projects :: "json \<Rightarrow> error + json option" where
  "get_projects JNull = Inl TypeError"
| "get_projects (JObj kvs) = Inr (map_of kvs ''projects'')"
| "get_projects v = Inr None"

text \<open>\<open>x || []\<close>.\<close>

definition or_empty :: "json option \<Rightarrow> json" where
  "or_empty x = (case x of None \<Rightarrow> JArr []
                 | Some v \<Rightarrow> if truthy v then v else JArr [])"

definition fetchProjects :: "api_config \<Rightarrow> network \<Rightarrow> loader \<Rightarrow> (error + json) \<times> loader" where
  "fetchProjects cfg net s =
     (case fetchData cfg net ''projects'' (projects (LOCAL_PATHS cfg)) s of
        (Inl e, s') \<Rightarrow> (Inl e, s')
      | (Inr data, s') \<Rightarrow>
          (case get_projects data of
             Inl e \<Rightarrow> (Inl e, s')
           | Inr p \<Rightarrow> (Inr (or_empty p), s')))"

definition fetchAbout :: "api_config \<Rightarrow> network \<Rightarrow> loader \<Rightarrow> (error + json) \<times> loader" where
  "fetchAbout cfg net s = fetchData cfg net ''about'' (about (LOCAL_PATHS cfg)) s"

definition fetchContact :: "api_config \<Rightarrow> network \<Rightarrow> loader \<Rightarrow> (error + json) \<times> loader" where
  "fetchContact cfg net s = fetchData cfg net ''contact'' (contact (LOCAL_PATHS cfg)) s"

definition fetchHeader :: "api_config \<Rightarrow> network \<Rightarrow> loader \<Rightarrow> (error + json) \<times> loader" where
  "fetchHeader cfg net s = fetchData cfg net ''header'' (header (LOCAL_PATHS cfg)) s"

definition clearCache :: "loader \<Rightarrow> loader" where
  "clearCache s = s\<lparr>cache := Map.empty\<rparr>"

text \<open>
  The resources of the module: the endpoint names the entry points pass to
  \<open>fetchData\<close>, each with its local path. \<open>fetch_resource\<close> is the \<open>fetchData\<close> call
  the entry point of a resource makes.
\<close>

datatype resource = Projects | About | Contact | Header

fun resourceName :: "resource \<Rightarrow> string" where
  "resourceName Projects = ''projects''"
| "resourceName About = ''about''"
| "resourceName Contact = ''contact''"
| "resourceName Header = ''header''"

fun localPath_of :: "api_config \<Rightarrow> resource \<Rightarrow> string" where
  "localPath_of cfg Projects = projects (LOCAL_PATHS cfg)"
| "localPath_of cfg About = about (LOCAL_PATHS cfg)"
| "localPath_of cfg Contact = contact (LOCAL_PATHS cfg)"
| "localPath_of cfg Header = header (LOCAL_PATHS cfg)"

definition primary_url :: "api_config \<Rightarrow> resource \<Rightarrow> string" where
  "primary_url cfg r = CMS_BASE_URL cfg @ ''/'' @ resourceName r"

definition fetch_resource ::
  "api_config \<Rightarrow> network \<Rightarrow> resource \<Rightarrow> loader \<Rightarrow> (error + json) \<times> loader" where
  "fetch_resource cfg net r s = fetchData cfg net (resourceName r) (localPath_of cfg r) s"


text \<open>The state of a session that has fetched nothing: \<open>const cache = {}\<close>.\<close>

definition fresh_loader :: loader where
  "fresh_loader = \<lparr> cache = Map.empty, requests = [] \<rparr>"


text \<open>
  The primary request fails: \<open>fetch\<close> rejects, the status is not a success, or the
  body is not JSON. These are the three ways into the \<open>catch\<close> of \<open>fetchData\<close>.
\<close>

definition primary_fails :: "network \<Rightarrow> string \<Rightarrow> bool" where
  "primary_fails net url =
     (case net url of Inl e \<Rightarrow> True | Inr resp \<Rightarrow> \<not> ok resp \<or> body resp = None)"

section \<open>Renderer: page-renderer.js\<close>

subsection \<open>Payloads\<close>

text \<open>
  A project of the listing, with the properties the templates read. \<open>credits\<close> pairs a
  role with a name. A property the templates test (\<open>project.video_url\<close>,
  \<open>project.poster_image\<close>) is truthy when the string is not empty. The renderers are
  modelled on listings of this shape: an array whose items carry these properties as
  strings.
\<close>

record project =
  link :: string
  title :: string
  client :: string
  category :: string
  data_cat :: string
  poster_image :: string
  poster_image_srcset :: string
  video_url :: string
  credits :: "(string \<times> string) list"

text \<open>
  \<open>data.page\<close> of the about resource: \<open>founder\<close> is (name, title, bio), \<open>content\<close> is
  \<open>main_text\<close> with the text of \<open>video_button\<close>; each is \<open>None\<close> when the property is
  missing.
\<close>

record about_page =
  founder :: "(string \<times> string \<times> string) option"
  content :: "(string \<times> string option) option"

text \<open>
  \<open>data.page\<close> of the contact resource: \<open>staff\<close> lists departments (a title and its
  members, each a name and an email), \<open>address\<close> is (street, city, phone, email),
  \<open>social\<close> is (vimeo, instagram).
\<close>

record contact_page =
  staff :: "(string \<times> (string \<times> string) list) list option"
  address :: "(string \<times> string \<times> string \<times> string) option"
  social :: "(string \<times> string) option"

subsection \<open>The document\<close>

text \<open>
  The text of the \<open>onclick\<close> attribute of a project link, by the template it comes
  from. With \<open>l\<close> between the quotes, whatever \<open>l\<close> is:
  \<^item> \<open>LocationHref l\<close> is
    \<open>event.preventDefault(); event.stopPropagation(); window.location.href='l'; return false;\<close>
  \<^item> \<open>LocationReplace l\<close> is \<open>window.location.replace('l'); return false;\<close>
\<close>

datatype onclick = LocationHref string | LocationReplace string

text \<open>
  An \<open>li.box.box--work\<close>: whether it carries the class \<open>initial-project\<close>, its
  \<open>data-cat\<close>, its \<open>a.box--work__link\<close> (href and onclick), the title, client and
  category it shows, its \<open>img.video-img-poster\<close> (src and srcset) and the src of its
  \<open>video.js-video\<close>. A part is \<open>None\<close> when the item has no such descendant.
  The strings are the values of the attributes and the text of the elements in the
  document, after the parser has read them.
\<close>

record box_work =
  initial :: bool
  cat :: string
  anchor :: "(string \<times> onclick) option"
  info :: "string \<times> string \<times> string"
  poster :: "(string \<times> string) option"
  video :: "string option"

text \<open>
  The markup the renderers write, one constructor per template:
  \<^item> \<open>Text\<close>: a text node (\<open>textContent = ...\<close>);
  \<^item> \<open>BoxWork\<close>: a project item of the works page or of the homepage grid;
  \<^item> \<open>CursorPlayer\<close>: the \<open>div.cursor-player-animated\<close> of the slider, with the
    \<open>data-src\<close> of its videos;
  \<^item> \<open>SliderLi\<close>: a slider item: is-active, the href of its \<open>a.js-change-video\<close>,
    title, client, category;
  \<^item> \<open>MainVideo\<close>: a \<open>video.js-main-video\<close> with its \<open>data-src\<close>;
  \<^item> \<open>FounderHtml\<close>: name, title and bio of the founder; \<open>RawHtml\<close>: markup of the
    payload inserted as it is; \<open>PlayButton\<close>: the icon and text of the about button;
  \<^item> \<open>Department\<close>: a staff department with its members; \<open>AddressHtml\<close>: the
    street line, city, phone and email; \<open>SocialHtml\<close>: the links shown;
  \<^item> \<open>Dt\<close>, \<open>Dd\<close>: a credit's role and name;
  \<^item> \<open>Unparsed\<close>: markup this model does not read, from here to the end of the
    container (see below).

  The constructors of the about and the contact page hold the strings as the template
  interpolates them; what the parser makes of them is not modelled.
\<close>

datatype node =
    Text string
  | BoxWork box_work
  | CursorPlayer "string list"
  | SliderLi bool string string string string
  | MainVideo string
  | FounderHtml string string string
  | RawHtml string
  | PlayButton string
  | Department string "(string \<times> string) list"
  | AddressHtml string string string string
  | SocialHtml "string option" "string option"
  | Dt string
  | Dd string
  | Unparsed

record element =
  attrs :: "string \<rightharpoonup> string"
  style :: "string \<rightharpoonup> string"
  children :: "node list"

datatype level = Log | Warn

text \<open>
  What a deferred second-phase callback does, one constructor per statement group:
  \<open>window.lazyLoadInstance.update()\<close>; the loop over the videos under a selector, which
  loads them; \<open>initCursorPlayer()\<close>; \<open>window.dispatchEvent\<close> of an event; the copy of
  the first slider item's address and title to the main link, the mobile link and the
  cursor text.
\<close>

datatype effect =
    LazyLoadUpdate
  | LoadVideos string
  | InitCursorPlayer
  | Dispatched string
  | UpdateMainLinks

text \<open>The callbacks handed to \<open>setTimeout\<close>.\<close>

datatype task =
    PostRender string
  | Dispatch string
  | SliderSwap "project list"
  | SliderSettle
  | MainVideosLoad
  | MainLinksUpdate

text \<open>
  The page as the renderer sees it. \<open>dom\<close> maps the selector of a lookup
  (\<open>''#works''\<close> for \<open>getElementById('works')\<close>, \<open>''.box--about''\<close> for
  \<open>querySelector('.box--about')\<close>) to the element found. \<open>console\<close> keeps each message
  of the render functions, and of the swap of the staged transition, with its level,
  without the values interpolated into it. \<open>timers\<close> holds the pending callbacks with
  the time they are due, in the order they were set; \<open>now\<close> is the clock in
  milliseconds. \<open>lazy\<close> says that \<open>LazyLoad\<close> and \<open>window.lazyLoadInstance\<close>
  exist, \<open>cursor\<close> that \<open>initCursorPlayer\<close> is a function.

  The second-phase callbacks (100 ms after a render and later) set up what lies outside
  the markup of the mount points: lazy loading, the media state of the videos
  (\<open>video.load()\<close>, a \<open>src\<close> taken from \<open>data-src\<close>), the hover collaborators, the main
  link. Each is recorded in \<open>effects\<close> with the timers it sets; what it logs and what
  it writes to the videos and to the link elements is not part of this model.
\<close>

record page =
  dom :: "string \<rightharpoonup> element"
  console :: "(level \<times> string) list"
  effects :: "effect list"
  timers :: "(nat \<times> task) list"
  now :: nat
  lazy :: bool
  cursor :: bool

definition say :: "level \<Rightarrow> string \<Rightarrow> page \<Rightarrow> page" where
  "say l msg s = s\<lparr>console := console s @ [(l, msg)]\<rparr>"

definition setTimeout :: "task \<Rightarrow> nat \<Rightarrow> page \<Rightarrow> page" where
  "setTimeout tk delay s = s\<lparr>timers := timers s @ [(now s + delay, tk)]\<rparr>"

definition put_element :: "string \<Rightarrow> element \<Rightarrow> page \<Rightarrow> page" where
  "put_element sel e s = s\<lparr>dom := (dom s)(sel \<mapsto> e)\<rparr>"

subsection \<open>What innerHTML makes of a template\<close>

text \<open>
  The templates put the strings of the payload between double quotes (attribute values)
  and between tags (text), and \<open>innerHTML\<close> hands the result to the HTML parser. In
  both places the parser takes a character as it is unless it is \<open>&\<close> (a character
  reference), \<open>"\<close> (the end of an attribute value), \<open><\<close> (a tag, in text), NUL or a
  carriage return. Characters are those below 256.
\<close>

definition literal_char :: "char \<Rightarrow> bool" where
  "literal_char c =
     (c \<noteq> CHR ''&'' \<and> c \<noteq> CHR 0x22 \<and> c \<noteq> CHR ''<'' \<and> c \<noteq> CHR 0x00 \<and> c \<noteq> CHR 0x0D)"

text \<open>
  What the parser reads from an interpolated string: the literal characters as they
  are, the reference \<open>&amp;\<close> as \<open>&\<close>. \<open>None\<close> on every other string: another
  reference, or a character that ends the attribute or opens markup, which this model
  does not follow.
\<close>

function html_decode :: "string \<Rightarrow> string option" where
  "html_decode [] = Some []"
| "html_decode (c # cs) =
     (if c = CHR ''&'' then
        (if take 4 cs = ''amp;'' then map_option ((#) CHR ''&'') (html_decode (drop 4 cs))
         else None)
      else if literal_char c then map_option ((#) c) (html_decode cs)
      else None)"
  by pat_completeness auto
termination
  by (relation "measure length") auto

definition readable :: "string list \<Rightarrow> bool" where
  "readable strs = list_all (\<lambda>x. html_decode x \<noteq> None) strs"

definition decoded :: "string \<Rightarrow> string" where
  "decoded x = (case html_decode x of None \<Rightarrow> [] | Some y \<Rightarrow> y)"

text \<open>
  A template with a string that is not read gives \<open>Unparsed\<close>: from there to the end
  of the container the document is not described (the string may close the item, open
  a comment, or swallow what follows). The items before it are complete elements and
  stay as they are. \<open>reparse\<close> is what is known of a container after its markup has
  been parsed, also after \<open>innerHTML\<close> has been read and assigned again: attribute
  values and text are escaped on the way out and read back as they were.
\<close>

definition reparse :: "node list \<Rightarrow> node list" where
  "reparse ns =
     (if Unparsed \<in> set ns then takeWhile (\<lambda>n. n \<noteq> Unparsed) ns @ [Unparsed] else ns)"

text \<open>\<open>container.innerHTML += html\<close>, for the node the parser makes of \<open>html\<close>.\<close>

definition append_html :: "node \<Rightarrow> element \<Rightarrow> element" where
  "append_html n e = e\<lparr>children := reparse (children e @ [n])\<rparr>"

subsection \<open>Project items\<close>

text \<open>
  The \<open>li\<close> template of \<open>renderWorksProjects\<close>, and the node the parser makes of it.
  The link is interpolated twice, into \<open>href\<close> and into \<open>onclick\<close>.
\<close>

definition works_box :: "project \<Rightarrow> box_work" where
  "works_box p =
     \<lparr> initial = False, cat = decoded (data_cat p),
       anchor = Some (decoded (link p), LocationHref (decoded (link p))),
       info = (decoded (title p), decoded (client p), decoded (category p)),
       poster = Some (decoded (poster_image p), decoded (poster_image_srcset p)),
       video = Some (decoded (video_url p)) \<rparr>"

text \<open>The strings a project item interpolates.\<close>

definition box_strings :: "project \<Rightarrow> string list" where
  "box_strings p =
     [data_cat p, link p, title p, client p, category p, poster_image p,
      poster_image_srcset p, video_url p]"

definition works_item :: "project \<Rightarrow> node" where
  "works_item p = (if readable (box_strings p) then BoxWork (works_box p) else Unparsed)"

text \<open>The \<open>li\<close> template of \<open>renderIndexProjects\<close> (both of its branches).\<close>

definition index_box :: "project \<Rightarrow> box_work" where
  "index_box p =
     \<lparr> initial = False, cat = decoded (data_cat p),
       anchor = Some (''javascript:void(0)'', LocationReplace (decoded (link p))),
       info = (decoded (title p), decoded (client p), decoded (category p)),
       poster = Some (decoded (poster_image p), decoded (poster_image_srcset p)),
       video = Some (decoded (video_url p)) \<rparr>"

definition index_item :: "project \<Rightarrow> node" where
  "index_item p = (if readable (box_strings p) then BoxWork (index_box p) else Unparsed)"

text \<open>\<open>parent.appendChild(child)\<close>, and \<open>innerHTML +=\<close> on the about and contact pages.\<close>

definition append_child :: "node \<Rightarrow> element \<Rightarrow> element" where
  "append_child n e = e\<lparr>children := children e @ [n]\<rparr>"

text \<open>
  The deferred second phase of the two listings, 100 ms after the markup: the lazy
  loader, the videos of the container, and the event 200 ms later.
\<close>

definition post_render :: "string \<Rightarrow> page \<Rightarrow> page" where
  "post_render sel s =
     (let s1 = (if lazy s then s\<lparr>effects := effects s @ [LazyLoadUpdate]\<rparr> else s);
          s2 = s1\<lparr>effects := effects s1 @ [LoadVideos sel]\<rparr>
      in setTimeout (Dispatch ''projects-rendered'') 200 s2)"

definition renderWorksProjects :: "project list \<Rightarrow> page \<Rightarrow> error option \<times> page" where
  "renderWorksProjects ps s =
     (let s1 = say Log ''Rendering projects for works page...'' s in
      case dom s1 ''#works-list-project'' of
        None \<Rightarrow> (None, say Warn ''Works list container not found'' s1)
      | Some worksContainer \<Rightarrow>
          (let e = foldl (\<lambda>e p. append_html (works_item p) e)
                     (worksContainer\<lparr>children := []\<rparr>) ps;
               s2 = put_element ''#works-list-project'' e s1
           in (None, setTimeout (PostRender ''#works-list-project'') 100 s2)))"

subsection \<open>The homepage grid\<close>

text \<open>
  \<open>parseInt(str)\<close>, with no radix given: white space is skipped, then a sign, then
  \<open>0x\<close> or \<open>0X\<close> makes the radix 16, and the longest run of digits of the radix is
  the value; \<open>None\<close> is \<open>NaN\<close>, when there is no digit. White space, among the
  characters below 256: tab, line feed, vertical tab, form feed, carriage return,
  space, no-break space. (JavaScript rounds a value beyond \<open>2^53\<close> to a double; as a
  bound of \<open>slice\<close> on an array, whose length is below \<open>2^32\<close>, the rounded value and
  the exact one act alike.)
\<close>

definition is_space :: "char \<Rightarrow> bool" where
  "is_space c = ((of_char c :: nat) \<in> {9, 10, 11, 12, 13, 32, 160})"

text \<open>The value of a digit in a radix, \<open>None\<close> when the character is not one.\<close>

definition digit_of :: "nat \<Rightarrow> char \<Rightarrow> nat option" where
  "digit_of radix c =
     (let n = (of_char c :: nat);
          v = (if 48 \<le> n \<and> n \<le> 57 then Some (n - 48)
               else if 97 \<le> n \<and> n \<le> 122 then Some (n - 87)
               else if 65 \<le> n \<and> n \<le> 90 then Some (n - 55)
               else None)
      in case v of None \<Rightarrow> None | Some d \<Rightarrow> if d < radix then Some d else None)"

definition digits_value :: "nat \<Rightarrow> string \<Rightarrow> nat" where
  "digits_value radix ds =
     foldl (\<lambda>n c. radix * n + (case digit_of radix c of None \<Rightarrow> 0 | Some d \<Rightarrow> d)) 0 ds"

definition parseInt :: "string \<Rightarrow> int option" where
  "parseInt str =
     (let s1 = dropWhile is_space str;
          neg = (case s1 of [] \<Rightarrow> False | c # r \<Rightarrow> c = CHR ''-'');
          s2 = (case s1 of [] \<Rightarrow> [] | c # r \<Rightarrow> if c = CHR ''-'' \<or> c = CHR ''+'' then r else s1);
          hex = (take 2 s2 = ''0x'' \<or> take 2 s2 = ''0X'');
          radix = (if hex then 16 else 10);
          s3 = (if hex then drop 2 s2 else s2);
          ds = takeWhile (\<lambda>c. digit_of radix c \<noteq> None) s3
      in if ds = [] then None
         else Some (if neg then - int (digits_value radix ds) else int (digits_value radix ds)))"

text \<open>
  \<open>parseInt(worksContainer.getAttribute('data-initial-count') || '0')\<close>, and the test
  \<open>initialCount > 0\<close> (false on \<open>NaN\<close>): the count when the branch is taken, else 0.
\<close>

definition initialCount :: "element \<Rightarrow> nat" where
  "initialCount e =
     (case parseInt (case attrs e ''data-initial-count'' of
                       None \<Rightarrow> ''0''
                     | Some a \<Rightarrow> if a = [] then ''0'' else a) of
        None \<Rightarrow> 0
      | Some n \<Rightarrow> if n > 0 then nat n else 0)"

text \<open>
  \<open>worksContainer.querySelectorAll('.initial-project')\<close>: the positions, among the
  children, of the items that carry the class, in document order, as far as the
  container is described.
\<close>

definition initial_positions :: "node list \<Rightarrow> nat list" where
  "initial_positions ns =
     filter (\<lambda>i. case ns ! i of BoxWork b \<Rightarrow> initial b | _ \<Rightarrow> False)
       [0..<length (takeWhile (\<lambda>n. n \<noteq> Unparsed) ns)]"

text \<open>
  The update of one pre-rendered item with fresh data: the onclick of its link, the
  src of its video when the project has one, its poster when the project has one (the
  srcset when the project has one), the class removed, \<open>data-cat\<close> set. These are
  \<open>setAttribute\<close> and property writes: the strings of the project go into the
  document as they are, no parser reads them. The href of the link and the texts of
  the item are left as the static page has them.
\<close>

definition refresh_box :: "project \<Rightarrow> box_work \<Rightarrow> box_work" where
  "refresh_box p b =
     b\<lparr> anchor := (case anchor b of None \<Rightarrow> None
                    | Some (href, oc) \<Rightarrow> Some (href, LocationReplace (link p))),
        video := (case video b of None \<Rightarrow> None
                  | Some src \<Rightarrow> if video_url p \<noteq> [] then Some (video_url p) else Some src),
        poster := (case poster b of None \<Rightarrow> None
                   | Some (src, srcset) \<Rightarrow>
                       if poster_image p \<noteq> []
                       then Some (poster_image p,
                                  if poster_image_srcset p \<noteq> [] then poster_image_srcset p
                                  else srcset)
                       else Some (src, srcset)),
        initial := False,
        cat := data_cat p \<rparr>"

definition refresh_node :: "project \<Rightarrow> node \<Rightarrow> node" where
  "refresh_node p n = (case n of BoxWork b \<Rightarrow> BoxWork (refresh_box p b) | _ \<Rightarrow> n)"

text \<open>
  The first loop of the branch \<open>initialCount > 0\<close>: project \<open>index\<close> updates
  \<open>initialProjects[index]\<close>, when there is one.
\<close>

definition refresh_initial :: "project list \<Rightarrow> nat list \<Rightarrow> node list \<Rightarrow> node list" where
  "refresh_initial ps positions ns =
     foldl (\<lambda>ms (p, i). ms[i := refresh_node p (ms ! i)]) ns (zip ps positions)"

text \<open>
  \<open>renderIndexProjects\<close>. In the branch of the pre-rendered items, the items that
  come after markup the model does not read are not followed: which of them the
  loop updates is not known (\<open>reparse\<close> cuts the description there).
\<close>

definition renderIndexProjects :: "project list \<Rightarrow> page \<Rightarrow> error option \<times> page" where
  "renderIndexProjects ps s =
     (let s1 = say Log ''Rendering projects for index page...'' s in
      case dom s1 ''#works'' of
        None \<Rightarrow> (None, say Warn ''Works container not found'' s1)
      | Some worksContainer \<Rightarrow>
          (let n = initialCount worksContainer;
               s2 =
                 (if n > 0 then
                    (let s' = say Log ''Found initial projects, updating them with fresh data'' s1;
                         c1 = worksContainer\<lparr>attrs := (attrs worksContainer)(''data-initial-count'' := None)\<rparr>;
                         c2 = c1\<lparr>children :=
                                 reparse (refresh_initial (take n ps)
                                            (initial_positions (children c1)) (children c1))\<rparr>;
                         c3 = foldl (\<lambda>e p. append_html (index_item p) e) c2 (drop n ps)
                     in put_element ''#works'' c3 s')
                  else
                    (let s' = say Log ''No initial projects found, rendering all projects...'' s1;
                         c = foldl (\<lambda>e p. append_html (index_item p) e)
                               (worksContainer\<lparr>children := []\<rparr>) ps
                     in put_element ''#works'' c s'))
           in (None, setTimeout (PostRender ''#works'') 100 s2)))"

subsection \<open>The homepage slider\<close>

text \<open>
  A number as the text of an element (\<open>sliderTotal.textContent = total\<close>): its
  decimal digits.
\<close>

definition digit_char :: "nat \<Rightarrow> char" where
  "digit_char d = ''0123456789'' ! d"

fun string_of_nat :: "nat \<Rightarrow> string" where
  "string_of_nat n =
     (if 10 \<le> n then string_of_nat (n div 10) @ [digit_char (n mod 10)]
      else [digit_char n])"

definition set_text :: "string \<Rightarrow> element \<Rightarrow> element" where
  "set_text str e = e\<lparr>children := [Text str]\<rparr>"

definition updateSliderCounter :: "nat \<Rightarrow> page \<Rightarrow> page" where
  "updateSliderCounter tot s =
     (case dom s ''#slider-total'' of
        None \<Rightarrow> s
      | Some sliderTotal \<Rightarrow> put_element ''#slider-total'' (set_text (string_of_nat tot) sliderTotal) s)"

text \<open>A \<open>video.js-main-video\<close> of \<open>updateMainVideoSection\<close>, as the parser reads it.\<close>

definition main_video :: "project \<Rightarrow> node" where
  "main_video p =
     (if readable [video_url p] then MainVideo (decoded (video_url p)) else Unparsed)"

definition updateMainVideoSection :: "project list \<Rightarrow> page \<Rightarrow> page" where
  "updateMainVideoSection ps s =
     (if ps = [] then s
      else
        (let s1 = say Log ''firstProject'' s in
         case dom s1 ''#homepage-main-video-wrapper'' of
           None \<Rightarrow> s1
         | Some videoWrapper \<Rightarrow>
             (let e = videoWrapper\<lparr>children := reparse (map main_video ps)\<rparr>;
                  s2 = put_element ''#homepage-main-video-wrapper'' e s1
              in setTimeout MainVideosLoad 100 s2)))"

text \<open>
  The markup of \<open>renderSliderContent\<close> as the parser reads it: the cursor player
  with the \<open>data-src\<close> of its videos, then the slider items, the first one active.
\<close>

definition cursor_player :: "project list \<Rightarrow> node" where
  "cursor_player ps =
     (if readable (map video_url ps) then CursorPlayer (map (\<lambda>p. decoded (video_url p)) ps)
      else Unparsed)"

definition slider_item :: "nat \<times> project \<Rightarrow> node" where
  "slider_item ip =
     (case ip of (index, p) \<Rightarrow>
        if readable [link p, title p, client p, category p]
        then SliderLi (index = 0) (decoded (link p)) (decoded (title p)) (decoded (client p))
               (decoded (category p))
        else Unparsed)"

definition slider_items :: "project list \<Rightarrow> node list" where
  "slider_items ps = map slider_item (zip [0..<length ps] ps)"

text \<open>\<open>container.innerHTML = cursorPlayerHTML + listItemsHTML\<close>.\<close>

definition slider_markup :: "project list \<Rightarrow> node list" where
  "slider_markup ps = reparse (cursor_player ps # slider_items ps)"

definition renderSliderContent :: "string \<Rightarrow> project list \<Rightarrow> page \<Rightarrow> page" where
  "renderSliderContent sel ps s =
     (let s1 = (case dom s sel of
                  None \<Rightarrow> s
                | Some container \<Rightarrow>
                    put_element sel (container\<lparr>children := slider_markup ps\<rparr>) s);
          s2 = say Log ''Homepage slider rendered'' s1
      in setTimeout SliderSettle 100 s2)"

text \<open>
  The callback of the staged transition, 300 ms after \<open>renderHomepageSlider\<close>: the
  content, the main videos, the counter, full opacity, the flag removed. The callback
  of the source keeps the element it was given; here it is found again under its id,
  which is the same element as long as the router has not replaced the page.
\<close>

definition slider_swap :: "project list \<Rightarrow> page \<Rightarrow> page" where
  "slider_swap sliderProjects s =
     (let s1 = renderSliderContent ''#homepage-slider'' sliderProjects s;
          s2 = updateMainVideoSection sliderProjects s1;
          s3 = updateSliderCounter (length sliderProjects) s2;
          s4 = (case dom s3 ''#homepage-slider'' of
                  None \<Rightarrow> s3
                | Some sliderContainer \<Rightarrow>
                    put_element ''#homepage-slider''
                      (sliderContainer\<lparr>style := (style sliderContainer)(''opacity'' \<mapsto> ''1''),
                                        attrs := (attrs sliderContainer)(''data-has-fallback'' := None)\<rparr>)
                      s3)
      in say Log ''Smooth transition complete - now showing fresh data'' s4)"

definition renderHomepageSlider :: "project list \<Rightarrow> page \<Rightarrow> error option \<times> page" where
  "renderHomepageSlider ps s =
     (let s1 = say Log ''Rendering homepage slider...'' s in
      case dom s1 ''#homepage-slider'' of
        None \<Rightarrow> (None, say Log ''Homepage slider container not found'' s1)
      | Some sliderContainer \<Rightarrow>
          (let sliderProjects = take 2 ps;
               s2 = say Log ''Using projects for slider'' s1;
               hasFallback = (attrs sliderContainer ''data-has-fallback'' = Some ''true'')
           in if hasFallback then
                (let s3 = say Log ''Static fallback detected, smooth transition to fresh data'' s2;
                     e = sliderContainer\<lparr>style := (style sliderContainer)
                           (''transition'' \<mapsto> ''opacity 0.3s ease'', ''opacity'' \<mapsto> ''0.7'')\<rparr>;
                     s4 = put_element ''#homepage-slider'' e s3
                 in (None, setTimeout (SliderSwap sliderProjects) 300 s4))
              else
                (let s3 = renderSliderContent ''#homepage-slider'' sliderProjects s2;
                     s4 = updateMainVideoSection sliderProjects s3
                 in (None, updateSliderCounter (length sliderProjects) s4))))"

text \<open>
  The deferred second phase of the slider, 100 ms after its markup: the lazy loader,
  the videos of the cursor player, \<open>initCursorPlayer\<close>, and the event 200 ms later.
\<close>

definition slider_settle :: "page \<Rightarrow> page" where
  "slider_settle s =
     (let s1 = (if lazy s then s\<lparr>effects := effects s @ [LazyLoadUpdate]\<rparr> else s);
          s2 = s1\<lparr>effects := effects s1 @ [LoadVideos ''#homepage-slider'']\<rparr>;
          s3 = (if cursor s2 then s2\<lparr>effects := effects s2 @ [InitCursorPlayer]\<rparr> else s2)
      in setTimeout (Dispatch ''slider-rendered'') 200 s3)"

text \<open>
  The deferred load of the main videos, 100 ms after their markup, and the link update
  50 ms after it.
\<close>

definition main_videos_load :: "page \<Rightarrow> page" where
  "main_videos_load s =
     (let s1 = s\<lparr>effects := effects s @ [LoadVideos ''#homepage-main-video-wrapper'']\<rparr>
      in setTimeout MainLinksUpdate 50 s1)"

definition main_links_update :: "page \<Rightarrow> page" where
  "main_links_update s = s\<lparr>effects := effects s @ [UpdateMainLinks]\<rparr>"

subsection \<open>About, contact and project detail\<close>

text \<open>
  \<open>renderAboutContent(pageData)\<close>; \<open>None\<close> is an \<open>undefined\<close> payload, on which the
  first property read throws.
\<close>

definition renderAboutContent :: "about_page option \<Rightarrow> page \<Rightarrow> error option \<times> page" where
  "renderAboutContent pageData s =
     (let s1 = say Log ''Rendering about page content...'' s in
      case pageData of
        None \<Rightarrow> (Some TypeError, s1)
      | Some pd \<Rightarrow>
          (let contentHTML =
                 (case founder pd of None \<Rightarrow> []
                  | Some (nm, ti, bio) \<Rightarrow> [FounderHtml nm ti bio])
                 @ (case content pd of None \<Rightarrow> []
                    | Some (main_text, video_button) \<Rightarrow> [RawHtml main_text]);
               s2 = (case dom s1 ''.box--about'' of
                       None \<Rightarrow> s1
                     | Some aboutBox \<Rightarrow>
                         put_element ''.box--about'' (aboutBox\<lparr>children := contentHTML\<rparr>) s1);
               s3 = (case dom s2 ''.player-link'' of
                       None \<Rightarrow> s2
                     | Some aboutButton \<Rightarrow>
                         (case content pd of
                            Some (main_text, Some button_text) \<Rightarrow>
                              put_element ''.player-link''
                                (aboutButton\<lparr>children := [PlayButton button_text]\<rparr>) s2
                          | _ \<Rightarrow> s2))
           in (None, s3)))"

text \<open>
  \<open>renderContactContent(pageData)\<close>: the payload is read only behind
  \<open>staffList &&\<close> and \<open>addressBox &&\<close>.
\<close>

definition renderContactContent :: "contact_page option \<Rightarrow> page \<Rightarrow> error option \<times> page" where
  "renderContactContent pageData s =
     (let s1 = say Log ''Rendering contact page content...'' s in
      case (case dom s1 ''.list--staff'' of
              None \<Rightarrow> (None, s1)
            | Some staffList \<Rightarrow>
                (case pageData of
                   None \<Rightarrow> (Some TypeError, s1)
                 | Some pd \<Rightarrow>
                     (case staff pd of
                        None \<Rightarrow> (None, s1)
                      | Some departments \<Rightarrow>
                          (None,
                           put_element ''.list--staff''
                             (foldl (\<lambda>e (t, members). append_child (Department t members) e)
                                (staffList\<lparr>children := []\<rparr>) departments) s1)))) of
        (Some err, s2) \<Rightarrow> (Some err, s2)
      | (None, s2) \<Rightarrow>
          (case dom s2 ''.box--address'' of
             None \<Rightarrow> (None, s2)
           | Some addressBox \<Rightarrow>
               (case pageData of
                  None \<Rightarrow> (Some TypeError, s2)
                | Some pd \<Rightarrow>
                    (case address pd of
                       None \<Rightarrow> (None, s2)
                     | Some (street, city, phone, email) \<Rightarrow>
                         (let addressHTML =
                                AddressHtml (if street \<noteq> [] then street @ ''<br />'' else [])
                                  city phone email
                                # (case social pd of
                                     None \<Rightarrow> []
                                   | Some (vimeo, instagram) \<Rightarrow>
                                       [SocialHtml (if vimeo \<noteq> [] then Some vimeo else None)
                                          (if instagram \<noteq> [] then Some instagram else None)])
                          in (None,
                              put_element ''.box--address''
                                (addressBox\<lparr>children := addressHTML\<rparr>) s2))))))"

text \<open>
  A statement of \<open>renderProjectDetail\<close> on the element of a lookup that is not
  guarded: a missing element makes the property write throw. (The dash in the page
  title is written in ASCII below.)
\<close>

definition on_element :: "string \<Rightarrow> (element \<Rightarrow> element) \<Rightarrow> page \<Rightarrow> error option \<times> page" where
  "on_element sel f s =
     (case dom s sel of
        None \<Rightarrow> (Some TypeError, s)
      | Some e \<Rightarrow> (None, put_element sel (f e) s))"

text \<open>The next statement runs unless the one before threw.\<close>

definition and_then ::
  "error option \<times> page \<Rightarrow> (page \<Rightarrow> error option \<times> page) \<Rightarrow> error option \<times> page" where
  "and_then r f = (case r of (Some err, s) \<Rightarrow> (Some err, s) | (None, s) \<Rightarrow> f s)"

definition renderProjectDetail :: "project option \<Rightarrow> page \<Rightarrow> error option \<times> page" where
  "renderProjectDetail pr s =
     (case pr of
        None \<Rightarrow> (Some TypeError, s)
      | Some p \<Rightarrow>
          and_then (None, say Log ''Rendering project detail:'' s) (\<lambda>s.
          and_then (on_element ''#page-title''
                      (set_text (''DubaiFilmMaker - '' @ title p)) s) (\<lambda>s.
          and_then (on_element ''#page-description''
                      (\<lambda>e. e\<lparr>attrs := (attrs e)(''content'' \<mapsto> title p @ '' - '' @ client p)\<rparr>) s) (\<lambda>s.
          and_then (on_element ''#project-title'' (set_text (title p)) s) (\<lambda>s.
          and_then (on_element ''#project-client'' (set_text (client p)) s) (\<lambda>s.
          and_then (on_element ''#project-video''
                      (\<lambda>e. e\<lparr>attrs := (attrs e)(''src'' \<mapsto> video_url p)\<rparr>) s) (\<lambda>s.
            if credits p \<noteq> [] then
              on_element ''#credits-list''
                (\<lambda>creditsList.
                   foldl (\<lambda>e (role, nm). append_child (Dd nm) (append_child (Dt role) e))
                     (creditsList\<lparr>children := []\<rparr>) (credits p)) s
            else
              (case dom s ''.lnk--credits'' of
                 None \<Rightarrow> (None, s)
               | Some creditsLink \<Rightarrow>
                   (None,
                    put_element ''.lnk--credits''
                      (creditsLink\<lparr>style := (style creditsLink)(''display'' \<mapsto> ''none'')\<rparr>) s)))))))))"

subsection \<open>The timer loop\<close>

definition run_task :: "task \<Rightarrow> page \<Rightarrow> page" where
  "run_task tk s =
     (case tk of
        PostRender sel \<Rightarrow> post_render sel s
      | Dispatch ev \<Rightarrow> s\<lparr>effects := effects s @ [Dispatched ev]\<rparr>
      | SliderSwap ps \<Rightarrow> slider_swap ps s
      | SliderSettle \<Rightarrow> slider_settle s
      | MainVideosLoad \<Rightarrow> main_videos_load s
      | MainLinksUpdate \<Rightarrow> main_links_update s)"

text \<open>
  The pending timer that fires next: the earliest due, the one set first among equals;
  with it, the timers that stay.
\<close>

fun pop_timer :: "(nat \<times> 'a) list \<Rightarrow> ((nat \<times> 'a) \<times> (nat \<times> 'a) list) option" where
  "pop_timer [] = None"
| "pop_timer (x # xs) =
     (case pop_timer xs of
        None \<Rightarrow> Some (x, [])
      | Some (y, ys) \<Rightarrow> if fst x \<le> fst y then Some (x, xs) else Some (y, x # ys))"

text \<open>
  A bound on the callbacks a pending callback can still cause, itself included: the
  measure under which the loop below ends.
\<close>

fun weight :: "task \<Rightarrow> nat" where
  "weight (PostRender sel) = 2"
| "weight (Dispatch ev) = 1"
| "weight (SliderSwap ps) = 6"
| "weight SliderSettle = 2"
| "weight MainVideosLoad = 2"
| "weight MainLinksUpdate = 1"

definition pending_weight :: "page \<Rightarrow> nat" where
  "pending_weight s = sum_list (map (\<lambda>(due, tk). weight tk) (timers s))"

lemma pop_timer_None: "pop_timer ts = None \<Longrightarrow> ts = []"
  by (cases ts) (simp_all split: option.splits prod.splits if_splits)

lemma pop_timer_Cons:
  assumes "pop_timer (a # ts) = Some (x, rest)"
  shows "(ts = [] \<and> x = a \<and> rest = [])
   \<or> (\<exists>y ys. pop_timer ts = Some (y, ys) \<and>
         ((fst a \<le> fst y \<and> x = a \<and> rest = ts) \<or> (\<not> fst a \<le> fst y \<and> x = y \<and> rest = a # ys)))"
proof (cases "pop_timer ts")
  case None
  then have "ts = []" by (rule pop_timer_None)
  with assms show ?thesis by simp
next
  case (Some r)
  obtain y ys where r: "r = (y, ys)" by (cases r)
  show ?thesis
  proof (cases "fst a \<le> fst y")
    case True
    with assms Some r show ?thesis by simp
  next
    case False
    with assms Some r show ?thesis by simp
  qed
qed

lemma pop_timer_weight:
  "pop_timer ts = Some ((due, tk), rest) \<Longrightarrow>
   sum_list (map (\<lambda>(d, k). weight k) ts) = weight tk + sum_list (map (\<lambda>(d, k). weight k) rest)"
proof (induction ts arbitrary: due tk rest)
  case Nil
  then show ?case by simp
next
  case (Cons a ts)
  from pop_timer_Cons [OF Cons.prems] show ?case
  proof (elim disjE conjE exE)
    assume "ts = []" "(due, tk) = a" "rest = []"
    then show ?thesis by auto
  next
    fix y ys assume "pop_timer ts = Some (y, ys)" "fst a \<le> fst y" "(due, tk) = a" "rest = ts"
    then show ?thesis by auto
  next
    fix y ys
    assume p: "pop_timer ts = Some (y, ys)" and "\<not> fst a \<le> fst y"
      and y: "(due, tk) = y" and r: "rest = a # ys"
    from Cons.IH [of due tk ys] p y
    have "sum_list (map (\<lambda>(d, k). weight k) ts) =
          weight tk + sum_list (map (\<lambda>(d, k). weight k) ys)" by simp
    with r show ?thesis by (cases a) simp
  qed
qed

lemma say_simps [simp]:
  "dom (say l m s) = dom s" "timers (say l m s) = timers s" "now (say l m s) = now s"
  "effects (say l m s) = effects s" "lazy (say l m s) = lazy s" "cursor (say l m s) = cursor s"
  "console (say l m s) = console s @ [(l, m)]"
  by (simp_all add: say_def)

lemma setTimeout_simps [simp]:
  "dom (setTimeout tk d s) = dom s" "timers (setTimeout tk d s) = timers s @ [(now s + d, tk)]"
  "now (setTimeout tk d s) = now s" "effects (setTimeout tk d s) = effects s"
  "lazy (setTimeout tk d s) = lazy s" "cursor (setTimeout tk d s) = cursor s"
  "console (setTimeout tk d s) = console s"
  by (simp_all add: setTimeout_def)

lemma put_element_simps [simp]:
  "dom (put_element sel e s) = (dom s)(sel \<mapsto> e)" "timers (put_element sel e s) = timers s"
  "now (put_element sel e s) = now s" "effects (put_element sel e s) = effects s"
  "lazy (put_element sel e s) = lazy s" "cursor (put_element sel e s) = cursor s"
  "console (put_element sel e s) = console s"
  by (simp_all add: put_element_def)

lemma timers_post_render:
  "timers (post_render sel s) = timers s @ [(now s + 200, Dispatch ''projects-rendered'')]"
  by (simp add: post_render_def Let_def)

lemma timers_slider_settle:
  "timers (slider_settle s) = timers s @ [(now s + 200, Dispatch ''slider-rendered'')]"
  by (simp add: slider_settle_def Let_def)

lemma timers_main_videos_load:
  "timers (main_videos_load s) = timers s @ [(now s + 50, MainLinksUpdate)]"
  by (simp add: main_videos_load_def Let_def)

lemma timers_main_links_update: "timers (main_links_update s) = timers s"
  by (simp add: main_links_update_def)

lemma timers_updateSliderCounter [simp]: "timers (updateSliderCounter n s) = timers s"
  by (simp add: updateSliderCounter_def split: option.splits)

lemma now_updateSliderCounter [simp]: "now (updateSliderCounter n s) = now s"
  by (simp add: updateSliderCounter_def split: option.splits)

lemma timers_renderSliderContent:
  "timers (renderSliderContent sel ps s) = timers s @ [(now s + 100, SliderSettle)]"
  by (simp add: renderSliderContent_def Let_def split: option.splits)

lemma now_renderSliderContent [simp]: "now (renderSliderContent sel ps s) = now s"
  by (simp add: renderSliderContent_def Let_def split: option.splits)

lemma timers_updateMainVideoSection:
  "timers (updateMainVideoSection ps s) =
     timers s @ (if ps \<noteq> [] \<and> dom s ''#homepage-main-video-wrapper'' \<noteq> None
                 then [(now s + 100, MainVideosLoad)] else [])"
  by (simp add: updateMainVideoSection_def Let_def split: option.splits)

lemma now_updateMainVideoSection [simp]: "now (updateMainVideoSection ps s) = now s"
  by (simp add: updateMainVideoSection_def Let_def split: option.splits)

lemma timers_slider_swap:
  "timers (slider_swap ps s) =
     timers s @ [(now s + 100, SliderSettle)]
       @ (if ps \<noteq> [] \<and> dom (renderSliderContent ''#homepage-slider'' ps s)
                              ''#homepage-main-video-wrapper'' \<noteq> None
          then [(now s + 100, MainVideosLoad)] else [])"
  by (simp add: slider_swap_def Let_def timers_renderSliderContent
      timers_updateMainVideoSection split: option.splits)

lemma run_task_weight:
  "pending_weight (run_task tk s) < weight tk + pending_weight s"
  by (cases tk)
     (simp_all add: run_task_def pending_weight_def timers_post_render timers_slider_swap
        timers_slider_settle timers_main_videos_load timers_main_links_update)

text \<open>
  \<open>advance t\<close>: time passes until the clock reads \<open>t\<close>; every callback due by then
  runs, in the order of \<open>pop_timer\<close>, at the time it is due.
\<close>

function advance :: "nat \<Rightarrow> page \<Rightarrow> page" where
  "advance t s =
     (case pop_timer (timers s) of
        None \<Rightarrow> s\<lparr>now := max (now s) t\<rparr>
      | Some ((due, tk), rest) \<Rightarrow>
          if due \<le> t
          then advance t (run_task tk (s\<lparr>timers := rest, now := max (now s) due\<rparr>))
          else s\<lparr>now := max (now s) t\<rparr>)"
  by pat_completeness auto
termination
proof (relation "measure (\<lambda>(t, s). pending_weight s)")
  show "wf (measure (\<lambda>(t, s). pending_weight s))" by simp
next
  fix t :: nat and s :: page and x2 x y due tk
  assume pop: "pop_timer (timers s) = Some x2" and x2: "(x, y) = x2" and x: "(due, tk) = x"
    and "due \<le> t"
  from pop x2 x have "pop_timer (timers s) = Some ((due, tk), y)" by simp
  from pop_timer_weight [OF this]
  have "pending_weight s = weight tk + pending_weight (s\<lparr>timers := y, now := max (now s) due\<rparr>)"
    by (simp add: pending_weight_def)
  with run_task_weight [of tk "s\<lparr>timers := y, now := max (now s) due\<rparr>"]
  show "((t, run_task tk (s\<lparr>timers := y, now := max (now s) due\<rparr>)), t, s)
        \<in> measure (\<lambda>(t, s). pending_weight s)"
    by simp
qed

declare advance.simps [simp del]

text \<open>
  The callbacks that leave the markup of the slider alone: all but the swap of the
  staged transition.
\<close>

fun quiet :: "task \<Rightarrow> bool" where
  "quiet (SliderSwap ps) = False"
| "quiet (PostRender sel) = True"
| "quiet (Dispatch ev) = True"
| "quiet SliderSettle = True"
| "quiet MainVideosLoad = True"
| "quiet MainLinksUpdate = True"

text \<open>
  The slider element as \<open>renderHomepageSlider\<close> leaves it when the flag is set, and
  as the swap of the staged transition leaves it.
\<close>

definition dimmed :: "element \<Rightarrow> element" where
  "dimmed c = c\<lparr>style := (style c)(''transition'' \<mapsto> ''opacity 0.3s ease'', ''opacity'' \<mapsto> ''0.7'')\<rparr>"

definition swapped :: "project list \<Rightarrow> element \<Rightarrow> element" where
  "swapped ps c =
     c\<lparr>children := slider_markup ps,
       style := (style c)(''opacity'' \<mapsto> ''1''),
       attrs := (attrs c)(''data-has-fallback'' := None)\<rparr>"

subsection \<open>The two views of the homepage\<close>






text \<open>
  A string the parser reads as it is, and a project whose strings are all such: no
  character reference, no double quote, no \<open><\<close>.
\<close>

definition plain :: "string \<Rightarrow> bool" where
  "plain x = (html_decode x = Some x)"




section \<open>Navigation watcher: setupRouteChangeListener in site-config.js\<close>

subsection \<open>The document as the watcher reads it\<close>

text \<open>
  \<open>elems\<close> maps the selector of a lookup to the element found, \<open>textContent\<close> is
  \<open>document.body.textContent\<close>.
\<close>

record document =
  elems :: "string \<rightharpoonup> element"
  textContent :: string

definition found :: "document \<Rightarrow> string \<Rightarrow> bool" where
  "found d sel = (elems d sel \<noteq> None)"

text \<open>\<open>str.includes(sub)\<close>.\<close>

fun str_includes :: "string \<Rightarrow> string \<Rightarrow> bool" where
  "str_includes [] sub = (sub = [])"
| "str_includes (c # cs) sub = (prefix sub (c # cs) \<or> str_includes cs sub)"

subsection \<open>State\<close>

text \<open>The loaders \<open>site-config.js\<close> puts on \<open>window\<close>.\<close>

datatype loader_fn = loadContactContent | loadAboutContent | loadProjects | loadIndexProjects

text \<open>The callbacks handed to \<open>setTimeout\<close>: the debounced check and the reset.\<close>

datatype wtask = DebounceCheck | ResetIntent

text \<open>
  The variables of \<open>setupRouteChangeListener\<close> and what its callbacks read and write:
  \<^item> \<open>targetSlug\<close> and \<open>contentChangeDetected\<close>, as in the source;
  \<^item> \<open>pending\<close>: the callbacks waiting in the timer queue with the time they are due,
    in the order they were set. \<open>debounceTimer\<close> of the source always names the last
    check that was set, so \<open>clearTimeout(debounceTimer)\<close> removes the check that is
    pending, if any;
  \<^item> \<open>clock\<close>: the time in milliseconds;
  \<^item> \<open>doc\<close>: the document; \<open>bodyClasses\<close>: \<open>document.body.classList\<close>;
    \<open>pathname\<close>: \<open>window.location.pathname\<close>;
  \<^item> \<open>headerConfig\<close>: whether the header configuration is loaded;
    \<open>headerStyled\<close>: how often \<open>applyHeaderStyles\<close> has been called;
  \<^item> \<open>loaders\<close>: which of the names on \<open>window\<close> are functions;
    \<open>calls\<close>: the loaders called so far, oldest first;
  \<^item> \<open>uncaught\<close>: the errors thrown out of timer callbacks.
\<close>

record watcher =
  targetSlug :: "string option"
  contentChangeDetected :: bool
  pending :: "(nat \<times> wtask) list"
  clock :: nat
  doc :: document
  bodyClasses :: "string list"
  pathname :: string
  headerConfig :: bool
  headerStyled :: nat
  loaders :: "loader_fn \<Rightarrow> bool"
  calls :: "loader_fn list"
  uncaught :: "error list"

subsection \<open>updateBodyClass\<close>

definition template_classes :: "string list" where
  "template_classes =
     [''template-homepage'', ''template-projects'', ''template-about'', ''template-contact'']"

text \<open>The slug taken from the path when none is given.\<close>

definition slug_of_path :: "string \<Rightarrow> string" where
  "slug_of_path path =
     (if path = ''/'' \<or> path = ''/index.html'' \<or> path = ''/index'' \<or> path = [] then ''homepage''
      else if str_includes path ''/works'' then ''works''
      else if str_includes path ''/about'' then ''about''
      else if str_includes path ''/contact'' then ''contact''
      else [])"

definition template_of :: "string \<Rightarrow> string" where
  "template_of slug =
     (if slug = ''homepage'' then ''template-homepage''
      else if slug = ''works'' then ''template-projects''
      else if slug = ''about'' then ''template-about''
      else if slug = ''contact'' then ''template-contact''
      else [])"

definition updateBodyClass :: "string option \<Rightarrow> watcher \<Rightarrow> watcher" where
  "updateBodyClass slug s =
     (let removed = filter (\<lambda>c. c \<notin> set template_classes) (bodyClasses s);
          slug' = (case slug of
                     None \<Rightarrow> slug_of_path (pathname s)
                   | Some t \<Rightarrow> if t = [] then slug_of_path (pathname s) else t);
          newClass = template_of slug'
      in if newClass \<noteq> [] then s\<lparr>bodyClasses := removed @ [newClass]\<rparr>
         else s\<lparr>bodyClasses := removed\<rparr>)"

subsection \<open>The click handler\<close>

text \<open>
  What a click lands on: nothing with \<open>data-navigo\<close> around it, or a navigation link
  with its \<open>data-slug\<close> attribute (\<open>None\<close> when it has none).
\<close>

datatype click_target = Elsewhere | NavLink "string option"

definition on_click :: "click_target \<Rightarrow> watcher \<Rightarrow> watcher" where
  "on_click tgt s =
     (case tgt of
        Elsewhere \<Rightarrow> s
      | NavLink None \<Rightarrow> s
      | NavLink (Some slug) \<Rightarrow>
          if slug \<noteq> [] then s\<lparr>targetSlug := Some slug, contentChangeDetected := False\<rparr>
          else s)"

subsection \<open>The mutation observer\<close>

text \<open>\<open>!targetSlug\<close> is false.\<close>

definition has_target :: "watcher \<Rightarrow> bool" where
  "has_target s = (case targetSlug s of None \<Rightarrow> False | Some t \<Rightarrow> t \<noteq> [])"

text \<open>
  The observer callback: nothing without a target or after the content was detected;
  else the pending check is cleared and a new one is set, 150 ms from now.
\<close>

definition on_mutation :: "watcher \<Rightarrow> watcher" where
  "on_mutation s =
     (if \<not> has_target s then s
      else if contentChangeDetected s then s
      else s\<lparr>pending := filter (\<lambda>(due, k). k \<noteq> DebounceCheck) (pending s)
                            @ [(clock s + 150, DebounceCheck)]\<rparr>)"

text \<open>The signature elements of the routes: \<open>contentLoaded\<close> of the debounced check.\<close>

definition contentLoaded :: "string option \<Rightarrow> document \<Rightarrow> bool" where
  "contentLoaded slug d =
     (case slug of
        None \<Rightarrow> False
      | Some t \<Rightarrow>
          if t = ''contact'' then
            found d ''.list--staff'' \<or> found d ''.box--address''
            \<or> str_includes (textContent d) ''Loading staff''
          else if t = ''about'' then
            found d ''.box--about'' \<or> str_includes (textContent d) ''Loading about''
          else if t = ''works'' then
            found d ''.list--works'' \<or> found d ''.bloc-projects-listing''
            \<or> found d ''#works-list-project''
          else if t = ''homepage'' then
            found d ''#homepage-slider'' \<or> found d ''#works''
          else False)"

text \<open>
  The loader of a route. The contact loader is called without a test, so the call
  throws when the name is not a function; the others are called behind
  \<open>typeof ... === 'function'\<close>.
\<close>

definition call_loader :: "string \<Rightarrow> watcher \<Rightarrow> error option \<times> watcher" where
  "call_loader slug s =
     (if slug = ''contact'' then
        (if loaders s loadContactContent
         then (None, s\<lparr>calls := calls s @ [loadContactContent]\<rparr>)
         else (Some TypeError, s))
      else if slug = ''about'' then
        (if loaders s loadAboutContent
         then (None, s\<lparr>calls := calls s @ [loadAboutContent]\<rparr>)
         else (None, s))
      else if slug = ''works'' then
        (if loaders s loadProjects
         then (None, s\<lparr>calls := calls s @ [loadProjects]\<rparr>)
         else (None, s))
      else if slug = ''homepage'' then
        (if loaders s loadIndexProjects
         then (None, s\<lparr>calls := calls s @ [loadIndexProjects]\<rparr>)
         else (None, s))
      else (None, s))"

text \<open>\<open>if (headerConfig) { applyHeaderStyles(); }\<close>\<close>

definition header_sync :: "watcher \<Rightarrow> watcher" where
  "header_sync s = (if headerConfig s then s\<lparr>headerStyled := headerStyled s + 1\<rparr> else s)"

text \<open>
  The debounced check, 150 ms after the last observed mutation. It reads \<open>targetSlug\<close>
  as it is when the timer fires.
\<close>

definition debounced_check :: "watcher \<Rightarrow> watcher" where
  "debounced_check s =
     (if contentLoaded (targetSlug s) (doc s) then
        (let s1 = updateBodyClass (targetSlug s) s;
             s2 = header_sync s1
         in case call_loader (case targetSlug s of None \<Rightarrow> [] | Some t \<Rightarrow> t) s2 of
              (Some err, s3) \<Rightarrow> s3\<lparr>uncaught := uncaught s3 @ [err]\<rparr>
            | (None, s3) \<Rightarrow>
                s3\<lparr>contentChangeDetected := True,
                   pending := pending s3 @ [(clock s3 + 500, ResetIntent)]\<rparr>)
      else s)"

text \<open>The reset, 500 ms after a confirmation.\<close>

definition reset_intent :: "watcher \<Rightarrow> watcher" where
  "reset_intent s = s\<lparr>targetSlug := None, contentChangeDetected := False\<rparr>"

definition run_wtask :: "wtask \<Rightarrow> watcher \<Rightarrow> watcher" where
  "run_wtask k s = (case k of DebounceCheck \<Rightarrow> debounced_check s | ResetIntent \<Rightarrow> reset_intent s)"

subsection \<open>The timer loop and the events\<close>

fun wweight :: "wtask \<Rightarrow> nat" where
  "wweight DebounceCheck = 2"
| "wweight ResetIntent = 1"

definition pending_wweight :: "watcher \<Rightarrow> nat" where
  "pending_wweight s = sum_list (map (\<lambda>(due, k). wweight k) (pending s))"

lemma pop_timer_wweight:
  "pop_timer ts = Some ((due, k), rest) \<Longrightarrow>
   sum_list (map (\<lambda>(d, k). wweight k) ts) = wweight k + sum_list (map (\<lambda>(d, k). wweight k) rest)"
proof (induction ts arbitrary: due k rest)
  case Nil
  then show ?case by simp
next
  case (Cons a ts)
  from pop_timer_Cons [OF Cons.prems] show ?case
  proof (elim disjE conjE exE)
    assume "ts = []" "(due, k) = a" "rest = []"
    then show ?thesis by auto
  next
    fix y ys assume "pop_timer ts = Some (y, ys)" "fst a \<le> fst y" "(due, k) = a" "rest = ts"
    then show ?thesis by auto
  next
    fix y ys
    assume p: "pop_timer ts = Some (y, ys)" and "\<not> fst a \<le> fst y"
      and y: "(due, k) = y" and r: "rest = a # ys"
    from Cons.IH [of due k ys] p y
    have "sum_list (map (\<lambda>(d, k). wweight k) ts) =
          wweight k + sum_list (map (\<lambda>(d, k). wweight k) ys)" by simp
    with r show ?thesis by (cases a) simp
  qed
qed

lemma pending_updateBodyClass [simp]: "pending (updateBodyClass slug s) = pending s"
  by (simp add: updateBodyClass_def Let_def)

lemma call_loader_pending:
  "call_loader slug s = (r, s') \<Longrightarrow> pending s' = pending s \<and> clock s' = clock s"
  by (auto simp: call_loader_def split: if_splits)

lemma clock_updateBodyClass [simp]: "clock (updateBodyClass slug s) = clock s"
  by (simp add: updateBodyClass_def Let_def)

lemma header_sync_fields [simp]:
  "pending (header_sync s) = pending s" "clock (header_sync s) = clock s"
  "loaders (header_sync s) = loaders s" "targetSlug (header_sync s) = targetSlug s"
  "contentChangeDetected (header_sync s) = contentChangeDetected s"
  "doc (header_sync s) = doc s" "calls (header_sync s) = calls s"
  by (simp_all add: header_sync_def)

lemma pending_debounced_check:
  "pending (debounced_check s) = pending s
   \<or> pending (debounced_check s) = pending s @ [(clock s + 500, ResetIntent)]"
proof (cases "contentLoaded (targetSlug s) (doc s)")
  case False
  then show ?thesis by (simp add: debounced_check_def)
next
  case True
  let ?s2 = "header_sync (updateBodyClass (targetSlug s) s)"
  obtain r s3 where c: "call_loader (case targetSlug s of None \<Rightarrow> [] | Some t \<Rightarrow> t) ?s2 = (r, s3)"
    by (cases "call_loader (case targetSlug s of None \<Rightarrow> [] | Some t \<Rightarrow> t) ?s2")
  from call_loader_pending [OF c] have p: "pending s3 = pending s" "clock s3 = clock s"
    by simp_all
  show ?thesis
    using True c p by (cases r) (simp_all add: debounced_check_def Let_def)
qed

lemma run_wtask_wweight:
  "pending_wweight (run_wtask k s) < wweight k + pending_wweight s"
proof (cases k)
  case DebounceCheck
  with pending_debounced_check [of s] show ?thesis
    by (auto simp: run_wtask_def pending_wweight_def)
next
  case ResetIntent
  then show ?thesis by (simp add: run_wtask_def reset_intent_def pending_wweight_def)
qed

text \<open>
  \<open>elapse t\<close>: time passes until the clock reads \<open>t\<close>; every callback due by then
  runs at the time it is due, the earliest first, the one set first among equals.
\<close>

function elapse :: "nat \<Rightarrow> watcher \<Rightarrow> watcher" where
  "elapse t s =
     (case pop_timer (pending s) of
        None \<Rightarrow> s\<lparr>clock := max (clock s) t\<rparr>
      | Some ((due, k), rest) \<Rightarrow>
          if due \<le> t
          then elapse t (run_wtask k (s\<lparr>pending := rest, clock := max (clock s) due\<rparr>))
          else s\<lparr>clock := max (clock s) t\<rparr>)"
  by pat_completeness auto
termination
proof (relation "measure (\<lambda>(t, s). pending_wweight s)")
  show "wf (measure (\<lambda>(t, s). pending_wweight s))" by simp
next
  fix t :: nat and s :: watcher and x2 x y due k
  assume pop: "pop_timer (pending s) = Some x2" and x2: "(x, y) = x2" and x: "(due, k) = x"
    and "due \<le> t"
  from pop x2 x have "pop_timer (pending s) = Some ((due, k), y)" by simp
  from pop_timer_wweight [OF this]
  have "pending_wweight s = wweight k + pending_wweight (s\<lparr>pending := y, clock := max (clock s) due\<rparr>)"
    by (simp add: pending_wweight_def)
  with run_wtask_wweight [of k "s\<lparr>pending := y, clock := max (clock s) due\<rparr>"]
  show "((t, run_wtask k (s\<lparr>pending := y, clock := max (clock s) due\<rparr>)), t, s)
        \<in> measure (\<lambda>(t, s). pending_wweight s)"
    by simp
qed

declare elapse.simps [simp del]

text \<open>
  What happens to the page: a click, a batch of document mutations that leaves the
  given document (the observer callback runs after it), or time passing.
\<close>

datatype event = Click click_target | Mutation document | Wait nat

fun step :: "watcher \<Rightarrow> event \<Rightarrow> watcher" where
  "step s (Click tgt) = on_click tgt s"
| "step s (Mutation d) = on_mutation (s\<lparr>doc := d\<rparr>)"
| "step s (Wait n) = elapse (clock s + n) s"

definition run :: "event list \<Rightarrow> watcher \<Rightarrow> watcher" where
  "run es s = foldl step s es"

fun is_click :: "event \<Rightarrow> bool" where
  "is_click (Click tgt) = True"
| "is_click e = False"

subsection \<open>The states of the watcher\<close>

text \<open>The loader the debounced check calls for a route.\<close>

definition loader_for :: "string \<Rightarrow> loader_fn option" where
  "loader_for slug =
     (if slug = ''contact'' then Some loadContactContent
      else if slug = ''about'' then Some loadAboutContent
      else if slug = ''works'' then Some loadProjects
      else if slug = ''homepage'' then Some loadIndexProjects
      else None)"

text \<open>\<open>site-config.js\<close> assigns all four loaders before it sets the listener up.\<close>

definition all_loaders :: "loader_fn \<Rightarrow> bool" where
  "all_loaders f = True"

text \<open>
  Idle: no intent, nothing pending. Awaiting confirmation of a route: the intent is
  set and not confirmed, and nothing is pending but, possibly, one debounced check (no
  reset of an earlier confirmation). Confirmed: the flag is set and the reset is
  pending, due by the given time.
\<close>

definition idle :: "watcher \<Rightarrow> bool" where
  "idle s = (targetSlug s = None \<and> \<not> contentChangeDetected s \<and> pending s = [])"

definition awaiting :: "string \<Rightarrow> watcher \<Rightarrow> bool" where
  "awaiting slug s =
     (targetSlug s = Some slug \<and> slug \<noteq> [] \<and> \<not> contentChangeDetected s
      \<and> length (pending s) \<le> 1
      \<and> list_all (\<lambda>(due, k). k = DebounceCheck) (pending s))"

definition confirmed :: "nat \<Rightarrow> string \<Rightarrow> watcher \<Rightarrow> bool" where
  "confirmed bound slug s =
     (targetSlug s = Some slug \<and> contentChangeDetected s
      \<and> length (pending s) = 1
      \<and> list_all (\<lambda>(due, k). k = ResetIntent \<and> due \<le> bound) (pending s))"

text \<open>
  The calls after the one confirmation of a route, given the calls before it: the
  loader of the route is added when it is a function.
\<close>

definition calls_after :: "loader_fn list \<Rightarrow> string \<Rightarrow> (loader_fn \<Rightarrow> bool) \<Rightarrow> loader_fn list" where
  "calls_after c0 slug lds =
     c0 @ (case loader_for slug of None \<Rightarrow> [] | Some f \<Rightarrow> if lds f then [f] else [])"

text \<open>
  Where the watcher can be once an intent for a route awaits confirmation, as long as
  no click comes: still awaiting, with the calls it had; or confirmed or idle again,
  after the one call.
\<close>

definition on_course :: "loader_fn list \<Rightarrow> string \<Rightarrow> watcher \<Rightarrow> bool" where
  "on_course c0 slug s =
     ((awaiting slug s \<and> calls s = c0)
      \<or> ((confirmed (clock s + 500) slug s \<or> idle s)
          \<and> calls s = calls_after c0 slug (loaders s)))"

text \<open>
  The debounced checks that are pending. \<open>debounceTimer\<close> names the last one set and
  the observer clears it before it sets the next, so there is at most one in every
  state the listener reaches.
\<close>

definition checks :: "watcher \<Rightarrow> nat" where
  "checks s = length (filter (\<lambda>(due, k). k = DebounceCheck) (pending s))"

text \<open>
  After a click on a link to \<open>b\<close>, as long as no other click comes, whatever resets
  are pending: the target is \<open>b\<close> or has been reset; and either no call was made since
  the click, or the one call for \<open>b\<close> was made, no check is pending and the observer
  is switched off (the flag is set, or the target is reset).
\<close>

definition latest_only :: "loader_fn list \<Rightarrow> string \<Rightarrow> watcher \<Rightarrow> bool" where
  "latest_only c0 b s =
     ((targetSlug s = Some b \<or> targetSlug s = None) \<and> checks s \<le> 1
      \<and> (calls s = c0
          \<or> (calls s = calls_after c0 b (loaders s) \<and> checks s = 0
              \<and> (contentChangeDetected s \<or> targetSlug s = None))))"

section \<open>Concrete inputs\<close>

subsection \<open>Networks and payloads\<close>

definition listing_payload :: json where
  "listing_payload =
     JObj [(''projects'', JArr [JObj [(''id'', JNum 1)], JObj [(''id'', JNum 2)]])]"


definition malformed_listing :: json where
  "malformed_listing = JObj [(''items'', JArr [])]"

text \<open>The CMS answers 500 to everything; the static listing is served.\<close>

definition scenario_net :: network where
  "scenario_net url =
     (if url = ''data/project.json''
      then Inr \<lparr> ok = True, status = 200, body = Some listing_payload \<rparr>
      else Inr \<lparr> ok = False, status = 500, body = None \<rparr>)"

text \<open>The CMS answers 500; the request for the static listing is rejected.\<close>

definition http500_then_down :: network where
  "http500_then_down url =
     (if url = ''data/project.json'' then Inl NetworkError
      else Inr \<lparr> ok = False, status = 500, body = None \<rparr>)"

text \<open>Every request succeeds with the given body.\<close>

definition ok_net :: "json \<Rightarrow> network" where
  "ok_net d url = Inr \<lparr> ok = True, status = 200, body = Some d \<rparr>"



subsection \<open>Pages and listings\<close>

definition project1 :: project where
  "project1 =
     \<lparr> link = ''works/project-detail.html#id=1'', title = ''The Abu Dhabi Plan'',
       client = ''Abu Dhabi Executive Council'', category = ''Government'',
       data_cat = ''government'', poster_image = ''p1.jpg'', poster_image_srcset = ''p1.jpg 1x'',
       video_url = ''v1.mp4'', credits = [(''Director'', ''A'')] \<rparr>"

definition project2 :: project where
  "project2 =
     \<lparr> link = ''works/project-detail.html#id=2'', title = ''Second'',
       client = ''Client Two'', category = ''Corporate'',
       data_cat = ''corporate'', poster_image = ''p2.jpg'', poster_image_srcset = ''p2.jpg 1x'',
       video_url = ''v2.mp4'', credits = [] \<rparr>"

definition project3 :: project where
  "project3 =
     \<lparr> link = ''works/project-detail.html#id=3'', title = ''Third'',
       client = ''Client Three'', category = ''Tourism'',
       data_cat = ''tourism'', poster_image = ''p3.jpg'', poster_image_srcset = ''p3.jpg 1x'',
       video_url = ''v3.mp4'', credits = [] \<rparr>"

text \<open>The slider of the static homepage: pre-rendered content, flagged.\<close>

definition static_slider :: element where
  "static_slider =
     \<lparr> attrs = [''data-has-fallback'' \<mapsto> ''true''], style = Map.empty,
       children = [CursorPlayer [''static.mp4''],
                   SliderLi True ''works/project-detail.html#id=9'' ''Static'' ''Static client''
                     ''Static category''] \<rparr>"

text \<open>The grid of the static homepage: one pre-rendered item, announced.\<close>

definition static_box :: box_work where
  "static_box =
     \<lparr> initial = True, cat = ''static'',
       anchor = Some (''javascript:void(0)'', LocationReplace ''works/project-detail.html#id=9''),
       info = (''Static'', ''Static client'', ''Static category''),
       poster = Some (''static.jpg'', ''static.jpg 1x''),
       video = Some ''static.mp4'' \<rparr>"

definition static_grid :: element where
  "static_grid =
     \<lparr> attrs = [''data-initial-count'' \<mapsto> ''1''], style = Map.empty,
       children = [BoxWork static_box] \<rparr>"

text \<open>The homepage before any render: the flagged slider and the announced grid.\<close>

definition home_page :: page where
  "home_page =
     \<lparr> dom = [''#homepage-slider'' \<mapsto> static_slider, ''#works'' \<mapsto> static_grid],
       console = [], effects = [], timers = [], now = 0, lazy = True, cursor = True \<rparr>"






text \<open>A page that shows no route of the site: no mount point is in the document.\<close>

definition blank_page :: page where
  "blank_page =
     \<lparr> dom = Map.empty, console = [], effects = [], timers = [], now = 0,
       lazy = True, cursor = True \<rparr>"

definition about_data :: about_page where
  "about_data = \<lparr> founder = Some (''N'', ''T'', ''B''), content = Some (''text'', None) \<rparr>"

subsection \<open>Documents and watcher states\<close>

definition plain_element :: element where
  "plain_element = \<lparr> attrs = Map.empty, style = Map.empty, children = [] \<rparr>"

text \<open>A document in transit: no signature element of any route.\<close>

definition loading_doc :: document where
  "loading_doc = \<lparr> elems = Map.empty, textContent = ''Loading'' \<rparr>"

text \<open>The works page and the about page, once the router has put them in.\<close>

definition works_doc :: document where
  "works_doc = \<lparr> elems = [''#works-list-project'' \<mapsto> plain_element], textContent = ''Works'' \<rparr>"

definition about_doc :: document where
  "about_doc = \<lparr> elems = [''.box--about'' \<mapsto> plain_element], textContent = ''About'' \<rparr>"

text \<open>The watcher right after \<open>setupRouteChangeListener\<close>, on the homepage.\<close>

definition watcher0 :: watcher where
  "watcher0 =
     \<lparr> targetSlug = None, contentChangeDetected = False, pending = [], clock = 0,
       doc = loading_doc, bodyClasses = [''template-homepage''], pathname = ''/'',
       headerConfig = True, headerStyled = 0, loaders = all_loaders, calls = [],
       uncaught = [] \<rparr>"

text \<open>After a click on the works link; and 50 ms later, a first mutation seen at 20 ms.\<close>

definition works_intent :: watcher where
  "works_intent = watcher0\<lparr>targetSlug := Some ''works''\<rparr>"

definition works_pending :: watcher where
  "works_pending =
     watcher0\<lparr>targetSlug := Some ''works'', pending := [(170, DebounceCheck)], clock := 50\<rparr>"

text \<open>Nine mutation batches, 10 ms apart, none of which shows the works page yet.\<close>

definition burst :: "event list" where
  "burst = concat (replicate 9 [Mutation loading_doc, Wait 10])"

text \<open>
  A visit of the works page: the click on its link, the batch that shows the page, and
  the 150 ms to the debounced check. Then, 490 ms later, a click on the about link.
\<close>

definition first_visit :: "event list" where
  "first_visit = [Click (NavLink (Some ''works'')), Mutation works_doc, Wait 150]"

definition second_click :: "event list" where
  "second_click = first_visit @ [Wait 490, Click (NavLink (Some ''about''))]"

section \<open>Properties of the content fetcher\<close>

subsection \<open>Auxiliary facts\<close>


lemma fetchData_miss_cms:
  assumes "cached s (if endpoint \<noteq> [] then endpoint else localPath) = None"
    and "USE_CMS_API cfg" and "localPath \<noteq> []"
    and "primary_outcome (net (CMS_BASE_URL cfg @ ''/'' @ endpoint)) = Inl e"
  shows "fetchData cfg net endpoint localPath s =
     (case fallback_outcome (net localPath) of
        Inr d \<Rightarrow> (Inr d, s\<lparr>requests := requests s @ [CMS_BASE_URL cfg @ ''/'' @ endpoint, localPath],
                            cache := (cache s)((if endpoint \<noteq> [] then endpoint else localPath) \<mapsto> d)\<rparr>)
      | Inl fe \<Rightarrow> (Inl fe, s\<lparr>requests := requests s @ [CMS_BASE_URL cfg @ ''/'' @ endpoint, localPath]\<rparr>))"
  using assms by (simp add: fetchData_def do_fetch_def split: sum.splits)

lemma fetchData_result_cached:
  "fetchData cfg net endpoint localPath s = (Inr d, s') \<Longrightarrow>
   cache s' (if endpoint \<noteq> [] then endpoint else localPath) = Some d"
  by (auto simp: fetchData_def do_fetch_def cached_def Let_def split: option.splits sum.splits if_splits)



lemma resourceName_nonempty: "resourceName r \<noteq> []"
  by (cases r) simp_all

lemma localPath_API_CONFIG_nonempty: "localPath_of API_CONFIG r \<noteq> []"
  by (cases r) (simp_all add: API_CONFIG_def)

lemma primary_fails_outcome:
  "primary_fails net url \<Longrightarrow> \<exists>e. primary_outcome (net url) = Inl e"
  by (auto simp: primary_fails_def primary_outcome_def response_json_def split: sum.splits)

subsection \<open>Fallback\<close>

text \<open>
  Claim C1. For every resource, on a cache miss: if the primary request fails (\<open>fetch\<close>
  rejects, a non-success status, or a body that does not parse), then \<open>fetchData\<close>
  requests the primary URL and then the local path, each once and in this order; and
  if the fallback request yields parsed data \<open>d\<close>, it stores \<open>d\<close> under the resource
  name and resolves to \<open>d\<close>.
\<close>
theorem fetch_fallback_correct:
  assumes miss: "cached s (resourceName r) = None"
    and fails: "primary_fails net (primary_url API_CONFIG r)"
  shows "requests (snd (fetch_resource API_CONFIG net r s)) =
           requests s @ [primary_url API_CONFIG r, localPath_of API_CONFIG r]
     \<and> (fallback_outcome (net (localPath_of API_CONFIG r)) = Inr d \<longrightarrow>
          fetch_resource API_CONFIG net r s =
            (Inr d,
             s\<lparr>requests := requests s @ [primary_url API_CONFIG r, localPath_of API_CONFIG r],
               cache := (cache s)(resourceName r \<mapsto> d)\<rparr>))"
proof -
  obtain e where e: "primary_outcome (net (CMS_BASE_URL API_CONFIG @ ''/'' @ resourceName r)) = Inl e"
    using primary_fails_outcome [OF fails] by (auto simp: primary_url_def)
  have key: "(if resourceName r \<noteq> [] then resourceName r else localPath_of API_CONFIG r) = resourceName r"
    by (simp add: resourceName_nonempty)
  have cms: "USE_CMS_API API_CONFIG" by (simp add: API_CONFIG_def)
  note step = fetchData_miss_cms [of s "resourceName r" "localPath_of API_CONFIG r" API_CONFIG net e]
  show ?thesis
    unfolding fetch_resource_def
    using step miss e cms localPath_API_CONFIG_nonempty [of r]
    by (cases "fallback_outcome (net (localPath_of API_CONFIG r))") (simp_all add: key primary_url_def)
qed

theorem fetch_fallback_correct_witness:
  "cached fresh_loader (resourceName Projects) = None
   \<and> primary_fails scenario_net (primary_url API_CONFIG Projects)
   \<and> fallback_outcome (scenario_net (localPath_of API_CONFIG Projects)) = Inr listing_payload
   \<and> requests (snd (fetch_resource API_CONFIG scenario_net Projects fresh_loader)) =
       [''https://dxp-dubai-cms-cop4.vercel.app/api/projects'', ''data/project.json'']
   \<and> fetch_resource API_CONFIG scenario_net Projects fresh_loader =
       (Inr listing_payload,
        \<lparr> cache = [''projects'' \<mapsto> listing_payload],
          requests = [''https://dxp-dubai-cms-cop4.vercel.app/api/projects'', ''data/project.json''] \<rparr>)"
proof -
  have a: "cached fresh_loader (resourceName Projects) = None"
    by (simp add: cached_def fresh_loader_def)
  have b: "primary_fails scenario_net (primary_url API_CONFIG Projects)"
    by (simp add: primary_fails_def scenario_net_def primary_url_def API_CONFIG_def)
  have c: "fallback_outcome (scenario_net (localPath_of API_CONFIG Projects)) = Inr listing_payload"
    by (simp add: scenario_net_def API_CONFIG_def fallback_outcome_def response_json_def)
  show ?thesis
    using a b c fetch_fallback_correct [OF a b, of listing_payload]
    by (simp add: fresh_loader_def primary_url_def API_CONFIG_def)
qed

subsection \<open>Cache hits\<close>







subsection \<open>Both sources failing\<close>

text \<open>
  Claim C3, as amended. For every resource, on a cache miss: if the primary request
  fails and the fallback attempt fails with \<open>fallbackError\<close> (\<open>fetch\<close> rejects, or the
  body does not parse), then \<open>fetchData\<close> rejects with \<open>fallbackError\<close> itself, the
  last underlying error as it was thrown, after one request to each source; the cache
  is not written.
\<close>
theorem fetch_both_fail:
  assumes miss: "cached s (resourceName r) = None"
    and fails: "primary_fails net (primary_url API_CONFIG r)"
    and fb: "fallback_outcome (net (localPath_of API_CONFIG r)) = Inl fallbackError"
  shows "fetch_resource API_CONFIG net r s =
     (Inl fallbackError,
      s\<lparr>requests := requests s @ [primary_url API_CONFIG r, localPath_of API_CONFIG r]\<rparr>)"
proof -
  obtain e where e: "primary_outcome (net (CMS_BASE_URL API_CONFIG @ ''/'' @ resourceName r)) = Inl e"
    using primary_fails_outcome [OF fails] by (auto simp: primary_url_def)
  have key: "(if resourceName r \<noteq> [] then resourceName r else localPath_of API_CONFIG r) = resourceName r"
    by (simp add: resourceName_nonempty)
  have cms: "USE_CMS_API API_CONFIG" by (simp add: API_CONFIG_def)
  show ?thesis
    unfolding fetch_resource_def
    using fetchData_miss_cms [of s "resourceName r" "localPath_of API_CONFIG r" API_CONFIG net e]
      miss e cms localPath_API_CONFIG_nonempty [of r] fb
    by (simp add: key primary_url_def)
qed

theorem fetch_both_fail_witness:
  "cached fresh_loader (resourceName Projects) = None
   \<and> primary_fails http500_then_down (primary_url API_CONFIG Projects)
   \<and> fallback_outcome (http500_then_down (localPath_of API_CONFIG Projects)) = Inl NetworkError
   \<and> fetch_resource API_CONFIG http500_then_down Projects fresh_loader =
       (Inl NetworkError,
        \<lparr> cache = Map.empty,
          requests = [''https://dxp-dubai-cms-cop4.vercel.app/api/projects'', ''data/project.json''] \<rparr>)"
  using fetch_both_fail [of fresh_loader Projects http500_then_down NetworkError]
  by (simp add: cached_def fresh_loader_def primary_fails_def http500_then_down_def primary_url_def
      API_CONFIG_def fallback_outcome_def)

text \<open>
  Claim C3 as stated fails: with the CMS answering 500 and the static file unreachable,
  the rejection is the bare \<open>NetworkError\<close> of the fallback request, not a
  \<open>DataUnavailable\<close> error carrying the resource name.
\<close>
theorem fetch_no_DataUnavailable_counterexample:
  "fst (fetch_resource API_CONFIG http500_then_down Projects fresh_loader) = Inl NetworkError
   \<and> \<not> (\<exists>e. fst (fetch_resource API_CONFIG http500_then_down Projects fresh_loader) =
             Inl (DataUnavailable (resourceName Projects) e))"
  by (simp add: fetch_resource_def fetchData_def cached_def fresh_loader_def do_fetch_def
      http500_then_down_def primary_outcome_def fallback_outcome_def API_CONFIG_def Let_def)



subsection \<open>A listing without its collection\<close>

text \<open>
  Claim C10. If the \<open>fetchData\<close> call of \<open>fetchProjects\<close> resolves to an object that
  has no \<open>projects\<close> property, or whose \<open>projects\<close> value is falsy, then
  \<open>fetchProjects\<close> resolves to the empty array, and the object itself is the cache
  entry under \<open>projects\<close>.
\<close>
theorem fetchProjects_missing_key:
  assumes fetched: "fetchData cfg net ''projects'' (projects (LOCAL_PATHS cfg)) s = (Inr (JObj kvs), s')"
    and lacking: "map_of kvs ''projects'' = None
                  \<or> (\<exists>v. map_of kvs ''projects'' = Some v \<and> \<not> truthy v)"
  shows "fetchProjects cfg net s = (Inr (JArr []), s')
     \<and> cache s' ''projects'' = Some (JObj kvs)"
proof -
  have "or_empty (map_of kvs ''projects'') = JArr []"
    using lacking by (auto simp: or_empty_def)
  then have "fetchProjects cfg net s = (Inr (JArr []), s')"
    using fetched by (simp add: fetchProjects_def)
  moreover have "cache s' ''projects'' = Some (JObj kvs)"
    using fetchData_result_cached [OF fetched] by simp
  ultimately show ?thesis by simp
qed

theorem fetchProjects_missing_key_witness:
  "fetchData API_CONFIG (ok_net malformed_listing) ''projects'' (projects (LOCAL_PATHS API_CONFIG))
       fresh_loader =
     (Inr (JObj [(''items'', JArr [])]),
      \<lparr> cache = [''projects'' \<mapsto> malformed_listing],
        requests = [''https://dxp-dubai-cms-cop4.vercel.app/api/projects''] \<rparr>)
   \<and> map_of [(''items'', JArr [])] ''projects'' = None
   \<and> fetchProjects API_CONFIG (ok_net malformed_listing) fresh_loader =
     (Inr (JArr []),
      \<lparr> cache = [''projects'' \<mapsto> malformed_listing],
        requests = [''https://dxp-dubai-cms-cop4.vercel.app/api/projects''] \<rparr>)
   \<and> cache \<lparr> cache = [''projects'' \<mapsto> malformed_listing],
        requests = [''https://dxp-dubai-cms-cop4.vercel.app/api/projects''] \<rparr> ''projects''
       = Some malformed_listing"
proof -
  have fetched: "fetchData API_CONFIG (ok_net malformed_listing) ''projects''
       (projects (LOCAL_PATHS API_CONFIG)) fresh_loader =
     (Inr (JObj [(''items'', JArr [])]),
      \<lparr> cache = [''projects'' \<mapsto> malformed_listing],
        requests = [''https://dxp-dubai-cms-cop4.vercel.app/api/projects''] \<rparr>)"
    by (simp add: fetchData_def cached_def fresh_loader_def do_fetch_def malformed_listing_def
        ok_net_def primary_outcome_def response_json_def API_CONFIG_def Let_def)
  have lacking: "map_of [(''items'', JArr [])] ''projects'' = None
      \<or> (\<exists>v. map_of [(''items'', JArr [])] ''projects'' = Some v \<and> \<not> truthy v)"
    by simp
  show ?thesis
    using fetched fetchProjects_missing_key [OF fetched lacking]
    by (simp add: malformed_listing_def)
qed

section \<open>Properties of the renderer\<close>

subsection \<open>Auxiliary facts\<close>

lemma foldl_append_child:
  "foldl (\<lambda>e p. append_child (f p) e) e0 ps = e0\<lparr>children := children e0 @ map f ps\<rparr>"
  by (induction ps arbitrary: e0) (simp_all add: append_child_def)

lemma pop_timer_set:
  "pop_timer ts = Some (x, rest) \<Longrightarrow> set ts = insert x (set rest)"
proof (induction ts arbitrary: x rest)
  case Nil
  then show ?case by simp
next
  case (Cons a ts)
  from pop_timer_Cons [OF Cons.prems] show ?case
  proof (elim disjE conjE exE)
    assume "ts = []" "x = a" "rest = []"
    then show ?thesis by simp
  next
    fix y ys assume "pop_timer ts = Some (y, ys)" "fst a \<le> fst y" "x = a" "rest = ts"
    then show ?thesis by simp
  next
    fix y ys assume p: "pop_timer ts = Some (y, ys)" and "\<not> fst a \<le> fst y" "x = y" "rest = a # ys"
    with Cons.IH [OF p] show ?thesis by auto
  qed
qed

lemma pop_timer_least:
  "pop_timer ts = Some (x, rest) \<Longrightarrow> y \<in> set ts \<Longrightarrow> fst x \<le> fst y"
proof (induction ts arbitrary: x rest)
  case Nil
  then show ?case by simp
next
  case (Cons a ts)
  from pop_timer_Cons [OF Cons.prems(1)] show ?case
  proof (elim disjE conjE exE)
    assume "ts = []" "x = a" "rest = []"
    with Cons.prems(2) show ?thesis by simp
  next
    fix z zs assume p: "pop_timer ts = Some (z, zs)" and le: "fst a \<le> fst z" and xa: "x = a" "rest = ts"
    show ?thesis
    proof (cases "y = a")
      case True
      with xa show ?thesis by simp
    next
      case False
      with Cons.prems(2) have "y \<in> set ts" by simp
      from Cons.IH [OF p this] le xa show ?thesis by simp
    qed
  next
    fix z zs assume p: "pop_timer ts = Some (z, zs)" and nle: "\<not> fst a \<le> fst z" and xz: "x = z" "rest = a # zs"
    show ?thesis
    proof (cases "y = a")
      case True
      with nle xz show ?thesis by simp
    next
      case False
      with Cons.prems(2) have "y \<in> set ts" by simp
      from Cons.IH [OF p this] xz show ?thesis by simp
    qed
  qed
qed

lemma advance_cases:
  "advance t s =
     (case pop_timer (timers s) of
        None \<Rightarrow> s\<lparr>now := max (now s) t\<rparr>
      | Some ((due, tk), rest) \<Rightarrow>
          if due \<le> t
          then advance t (run_task tk (s\<lparr>timers := rest, now := max (now s) due\<rparr>))
          else s\<lparr>now := max (now s) t\<rparr>)"
  by (rule advance.simps)

lemma advance_invariant:
  assumes init: "P s"
    and step: "\<And>s due tk rest. P s \<Longrightarrow> pop_timer (timers s) = Some ((due, tk), rest) \<Longrightarrow>
                 due \<le> t \<Longrightarrow> P (run_task tk (s\<lparr>timers := rest, now := max (now s) due\<rparr>))"
    and clock: "\<And>s n. P s \<Longrightarrow> P (s\<lparr>now := n\<rparr>)"
  shows "P (advance t s)"
  using assms
proof (induction t s rule: advance.induct)
  case (1 t s)
  note init = "1.prems"(1) and step = "1.prems"(2) and clock = "1.prems"(3)
  show ?case
  proof (cases "pop_timer (timers s)")
    case None
    with init clock show ?thesis
      by (simp add: advance_cases [of t s])
  next
    case (Some r)
    obtain due k rest where r: "r = ((due, k), rest)" by (cases r) auto
    show ?thesis
    proof (cases "due \<le> t")
      case True
      have p: "pop_timer (timers s) = Some ((due, k), rest)" using Some r by simp
      have "P (run_task k (s\<lparr>timers := rest, now := max (now s) due\<rparr>))"
        by (rule step [OF init p True])
      from "1.IH" [OF p refl refl True this step clock]
      have "P (advance t (run_task k (s\<lparr>timers := rest, now := max (now s) due\<rparr>)))" .
      with Some r True show ?thesis by (simp add: advance_cases [of t s])
    next
      case False
      with init clock Some r show ?thesis by (simp add: advance_cases [of t s])
    qed
  qed
qed

lemma advance_all_later:
  "(d, tk) \<in> set (timers (advance t s)) \<Longrightarrow> t < d"
proof (induction t s rule: advance.induct)
  case (1 t s)
  show ?case
  proof (cases "pop_timer (timers s)")
    case None
    with "1.prems" pop_timer_None [OF None] show ?thesis
      by (simp add: advance_cases [of t s])
  next
    case (Some r)
    obtain due k rest where r: "r = ((due, k), rest)" by (cases r) auto
    have p: "pop_timer (timers s) = Some ((due, k), rest)" using Some r by simp
    show ?thesis
    proof (cases "due \<le> t")
      case True
      with "1.prems" p
      have "(d, tk) \<in> set (timers (advance t (run_task k (s\<lparr>timers := rest, now := max (now s) due\<rparr>))))"
        by (simp add: advance_cases [of t s])
      from "1.IH" [OF p refl refl True this] show ?thesis .
    next
      case False
      with "1.prems" p have "(d, tk) \<in> set (timers s)"
        by (simp add: advance_cases [of t s])
      with pop_timer_least [OF p, of "(d, tk)"] False
      show ?thesis by simp
    qed
  qed
qed

lemma run_task_spawns:
  "\<exists>new. timers (run_task tk s) = timers s @ new \<and> list_all (\<lambda>(d, k). quiet k) new"
  by (cases tk)
     (simp_all add: run_task_def timers_post_render timers_slider_swap
        timers_slider_settle timers_main_videos_load timers_main_links_update)

lemma run_task_quiet_dom:
  "quiet tk \<Longrightarrow> dom (run_task tk s) sel = dom s sel"
  by (cases tk)
     (simp_all add: run_task_def post_render_def slider_settle_def main_videos_load_def
        main_links_update_def Let_def)

lemma dom_renderSliderContent:
  "dom s sel = Some e \<Longrightarrow>
   dom (renderSliderContent sel ps s) = (dom s)(sel \<mapsto> e\<lparr>children := slider_markup ps\<rparr>)"
  by (simp add: renderSliderContent_def Let_def)

lemma dom_updateMainVideoSection_other:
  "sel \<noteq> ''#homepage-main-video-wrapper'' \<Longrightarrow> dom (updateMainVideoSection ps s) sel = dom s sel"
  by (simp add: updateMainVideoSection_def Let_def split: option.splits)

lemma dom_updateSliderCounter_other:
  "sel \<noteq> ''#slider-total'' \<Longrightarrow> dom (updateSliderCounter n s) sel = dom s sel"
  by (simp add: updateSliderCounter_def split: option.splits)

lemma dom_slider_swap:
  assumes "dom s ''#homepage-slider'' = Some e"
  shows "dom (slider_swap ps s) ''#homepage-slider'' = Some (swapped ps e)"
proof -
  let ?s1 = "renderSliderContent ''#homepage-slider'' ps s"
  let ?s3 = "updateSliderCounter (length ps) (updateMainVideoSection ps ?s1)"
  have "dom ?s3 ''#homepage-slider'' = dom ?s1 ''#homepage-slider''"
    by (simp add: dom_updateSliderCounter_other dom_updateMainVideoSection_other)
  also have "\<dots> = Some (e\<lparr>children := slider_markup ps\<rparr>)"
    by (simp add: dom_renderSliderContent [OF assms])
  finally show ?thesis
    by (simp add: slider_swap_def Let_def swapped_def)
qed

lemma swapped_idem: "swapped ps (swapped ps e) = swapped ps e"
  by (simp add: swapped_def)

lemma renderHomepageSlider_staged:
  assumes slider: "dom s ''#homepage-slider'' = Some c"
    and flag: "attrs c ''data-has-fallback'' = Some ''true''"
  shows "renderHomepageSlider ps s =
     (None,
      s\<lparr>console := console s @
           [(Log, ''Rendering homepage slider...''), (Log, ''Using projects for slider''),
            (Log, ''Static fallback detected, smooth transition to fresh data'')],
        dom := (dom s)(''#homepage-slider'' \<mapsto> dimmed c),
        timers := timers s @ [(now s + 300, SliderSwap (take 2 ps))]\<rparr>)"
  using assms
  by (simp add: renderHomepageSlider_def Let_def say_def put_element_def setTimeout_def dimmed_def)

lemma staged_before:
  assumes el: "dom s0 ''#homepage-slider'' = Some e"
    and calm: "\<forall>(d, k) \<in> set (timers s0). quiet k \<or> t < d"
  shows "dom (advance t s0) ''#homepage-slider'' = Some e"
proof -
  let ?P = "\<lambda>s::page. dom s ''#homepage-slider'' = Some e \<and> (\<forall>(d, k) \<in> set (timers s). quiet k \<or> t < d)"
  have "?P (advance t s0)"
  proof (rule advance_invariant [where P = ?P])
    show "?P s0" using el calm by simp
  next
    fix s :: page and due tk rest
    assume P: "?P s" and pop: "pop_timer (timers s) = Some ((due, tk), rest)" and due: "due \<le> t"
    let ?s' = "s\<lparr>timers := rest, now := max (now s) due\<rparr>"
    from pop_timer_set [OF pop] have set: "set (timers s) = insert (due, tk) (set rest)" .
    with P due have q: "quiet tk" by auto
    obtain new where new: "timers (run_task tk ?s') = timers ?s' @ new"
        "list_all (\<lambda>(d, k). quiet k) new"
      using run_task_spawns [of tk ?s'] by auto
    have "dom (run_task tk ?s') ''#homepage-slider'' = Some e"
      using run_task_quiet_dom [OF q, of ?s' "''#homepage-slider''"] P
      by simp
    moreover have "\<forall>(d, k) \<in> set (timers (run_task tk ?s')). quiet k \<or> t < d"
      using new P set by (auto simp: list_all_iff)
    ultimately show "?P (run_task tk ?s')" by simp
  next
    fix s :: page and n assume "?P s" then show "?P (s\<lparr>now := n\<rparr>)" by simp
  qed
  then show ?thesis by simp
qed

lemma staged_after:
  assumes el: "dom s0 ''#homepage-slider'' = Some e"
    and pending: "(T, SliderSwap X) \<in> set (timers s0)"
    and others: "\<forall>(d, k) \<in> set (timers s0). quiet k \<or> (d, k) = (T, SliderSwap X)"
    and T: "T \<le> t"
  shows "dom (advance t s0) ''#homepage-slider'' = Some (swapped X e)"
proof -
  let ?P = "\<lambda>s::page. (\<forall>(d, k) \<in> set (timers s). quiet k \<or> (d, k) = (T, SliderSwap X))
     \<and> ((dom s ''#homepage-slider'' = Some e \<and> (T, SliderSwap X) \<in> set (timers s))
        \<or> dom s ''#homepage-slider'' = Some (swapped X e))"
  have "?P (advance t s0)"
  proof (rule advance_invariant [where P = ?P])
    show "?P s0" using el pending others by simp
  next
    fix s :: page and due tk rest
    assume P: "?P s" and pop: "pop_timer (timers s) = Some ((due, tk), rest)" and due: "due \<le> t"
    let ?s' = "s\<lparr>timers := rest, now := max (now s) due\<rparr>"
    from pop_timer_set [OF pop] have set: "set (timers s) = insert (due, tk) (set rest)" .
    obtain new where new: "timers (run_task tk ?s') = timers ?s' @ new"
        "list_all (\<lambda>(d, k). quiet k) new"
      using run_task_spawns [of tk ?s'] by auto
    have tm: "\<forall>(d, k) \<in> set (timers (run_task tk ?s')). quiet k \<or> (d, k) = (T, SliderSwap X)"
      using new P set by (auto simp: list_all_iff)
    show "?P (run_task tk ?s')"
    proof (cases "quiet tk")
      case True
      have d: "dom (run_task tk ?s') ''#homepage-slider'' = dom s ''#homepage-slider''"
        using run_task_quiet_dom [OF True, of ?s' "''#homepage-slider''"]
        by simp
      have "(T, SliderSwap X) \<in> set (timers s) \<Longrightarrow> (T, SliderSwap X) \<in> set (timers (run_task tk ?s'))"
        using set new True by auto
      with P d tm show ?thesis by auto
    next
      case False
      with P set have tk: "tk = SliderSwap X" by auto
      from P have "dom ?s' ''#homepage-slider'' = Some e \<or> dom ?s' ''#homepage-slider'' = Some (swapped X e)"
        by auto
      then have "dom (run_task tk ?s') ''#homepage-slider'' = Some (swapped X e)"
        using dom_slider_swap [of ?s' e X] dom_slider_swap [of ?s' "swapped X e" X]
        by (auto simp: tk run_task_def swapped_idem)
      with tm show ?thesis by simp
    qed
  next
    fix s :: page and n assume "?P s" then show "?P (s\<lparr>now := n\<rparr>)" by simp
  qed
  moreover have "(T, SliderSwap X) \<notin> set (timers (advance t s0))"
    using advance_all_later [of T "SliderSwap X" t s0] T by auto
  ultimately show ?thesis by auto
qed

lemma reparse_known: "Unparsed \<notin> set ns \<Longrightarrow> reparse ns = ns"
  by (simp add: reparse_def)

lemma takeWhile_first:
  "u \<notin> set ys \<Longrightarrow> takeWhile (\<lambda>n. n \<noteq> u) (ys @ u # zs) = ys"
  by (induction ys) auto

lemma reparse_cut: "Unparsed \<notin> set ys \<Longrightarrow> reparse (ys @ Unparsed # zs) = ys @ [Unparsed]"
  by (simp add: reparse_def takeWhile_first)


lemma reparse_idem [simp]: "reparse (reparse xs) = reparse xs"
proof (cases "Unparsed \<in> set xs")
  case False
  then show ?thesis by (simp add: reparse_known)
next
  case True
  then obtain ys zs where xs: "xs = ys @ Unparsed # zs" and ys: "Unparsed \<notin> set ys"
    by (auto dest: split_list_first)
  show ?thesis
    using reparse_cut [OF ys, of zs] reparse_cut [OF ys, of "[]"] by (simp add: xs)
qed


lemma foldl_append_html_fields [simp]:
  "attrs (foldl (\<lambda>e p. append_html (f p) e) e ps) = attrs e"
  "style (foldl (\<lambda>e p. append_html (f p) e) e ps) = style e"
  by (induction ps arbitrary: e) (simp_all add: append_html_def)


lemma plain_decoded: "plain x \<Longrightarrow> html_decode x = Some x \<and> decoded x = x"
  by (simp add: plain_def decoded_def)




















lemma length_slider_items [simp]: "length (slider_items X) = length X"
  by (simp add: slider_items_def)


subsection \<open>The staged transition\<close>

text \<open>
  Claim C4, as amended. Let \<open>renderHomepageSlider\<close> run on a page whose slider carries
  \<open>data-has-fallback="true"\<close>, while no swap of an earlier staged transition is
  pending. The call returns normally and schedules exactly one task, the swap to the
  markup of the first two projects, 300 ms after the call. As long as less than 300 ms
  have passed since the call, the slider still has the children and the flag it had
  before the call; once 300 ms have passed, its children are the markup rendered from
  the first two projects, the flag is gone and the opacity is back to 1.
\<close>
theorem staged_transition:
  assumes slider: "dom s ''#homepage-slider'' = Some c"
    and flag: "attrs c ''data-has-fallback'' = Some ''true''"
    and calm: "list_all (\<lambda>(d, k). quiet k) (timers s)"
  shows "fst (renderHomepageSlider ps s) = None
     \<and> timers (snd (renderHomepageSlider ps s)) =
           timers s @ [(now s + 300, SliderSwap (take 2 ps))]
     \<and> (t < 300 \<longrightarrow>
          (\<exists>c'. dom (advance (now s + t) (snd (renderHomepageSlider ps s))) ''#homepage-slider''
                  = Some c'
                \<and> children c' = children c
                \<and> attrs c' ''data-has-fallback'' = Some ''true''))
     \<and> (300 \<le> t \<longrightarrow>
          (\<exists>c'. dom (advance (now s + t) (snd (renderHomepageSlider ps s))) ''#homepage-slider''
                  = Some c'
                \<and> children c' = slider_markup (take 2 ps)
                \<and> attrs c' ''data-has-fallback'' = None
                \<and> style c' ''opacity'' = Some ''1''))"
proof -
  let ?s' = "snd (renderHomepageSlider ps s)"
  note r = renderHomepageSlider_staged [OF slider flag, of ps]
  have el: "dom ?s' ''#homepage-slider'' = Some (dimmed c)" by (simp add: r)
  have tm: "timers ?s' = timers s @ [(now s + 300, SliderSwap (take 2 ps))]" by (simp add: r)
  have before: "dom (advance (now s + t) ?s') ''#homepage-slider'' = Some (dimmed c)"
    if "t < 300"
  proof (rule staged_before [OF el])
    show "\<forall>(d, k) \<in> set (timers ?s'). quiet k \<or> now s + t < d"
      using calm that by (auto simp: tm list_all_iff)
  qed
  have after: "dom (advance (now s + t) ?s') ''#homepage-slider'' = Some (swapped (take 2 ps) (dimmed c))"
    if "300 \<le> t"
  proof (rule staged_after [OF el, where T = "now s + 300"])
    show "(now s + 300, SliderSwap (take 2 ps)) \<in> set (timers ?s')" by (simp add: tm)
    show "\<forall>(d, k) \<in> set (timers ?s'). quiet k \<or> (d, k) = (now s + 300, SliderSwap (take 2 ps))"
      using calm by (auto simp: tm list_all_iff)
    show "now s + 300 \<le> now s + t" using that by simp
  qed
  have "fst (renderHomepageSlider ps s) = None" by (simp add: r)
  moreover note tm
  moreover have "t < 300 \<longrightarrow>
          (\<exists>c'. dom (advance (now s + t) ?s') ''#homepage-slider'' = Some c'
                \<and> children c' = children c
                \<and> attrs c' ''data-has-fallback'' = Some ''true'')"
    using before flag by (auto simp: dimmed_def)
  moreover have "300 \<le> t \<longrightarrow>
          (\<exists>c'. dom (advance (now s + t) ?s') ''#homepage-slider'' = Some c'
                \<and> children c' = slider_markup (take 2 ps)
                \<and> attrs c' ''data-has-fallback'' = None
                \<and> style c' ''opacity'' = Some ''1'')"
    using after by (auto simp: dimmed_def swapped_def)
  ultimately show ?thesis by blast
qed

lemma slider_markup_two:
  "slider_markup [project1, project2] =
     [CursorPlayer [''v1.mp4'', ''v2.mp4''],
      SliderLi True ''works/project-detail.html#id=1'' ''The Abu Dhabi Plan''
        ''Abu Dhabi Executive Council'' ''Government'',
      SliderLi False ''works/project-detail.html#id=2'' ''Second'' ''Client Two'' ''Corporate'']"
  by code_simp

theorem staged_transition_witness:
  "dom home_page ''#homepage-slider'' = Some static_slider
   \<and> attrs static_slider ''data-has-fallback'' = Some ''true''
   \<and> list_all (\<lambda>(d, k). quiet k) (timers home_page)
   \<and> fst (renderHomepageSlider [project1, project2, project3] home_page) = None
   \<and> timers (snd (renderHomepageSlider [project1, project2, project3] home_page)) =
         [(300, SliderSwap [project1, project2])]
   \<and> (\<exists>c'. dom (advance (now home_page + 299)
                   (snd (renderHomepageSlider [project1, project2, project3] home_page)))
               ''#homepage-slider'' = Some c'
          \<and> children c' = children static_slider
          \<and> attrs c' ''data-has-fallback'' = Some ''true'')
   \<and> (\<exists>c'. dom (advance (now home_page + 300)
                   (snd (renderHomepageSlider [project1, project2, project3] home_page)))
               ''#homepage-slider'' = Some c'
          \<and> children c' =
               [CursorPlayer [''v1.mp4'', ''v2.mp4''],
                SliderLi True ''works/project-detail.html#id=1'' ''The Abu Dhabi Plan''
                  ''Abu Dhabi Executive Council'' ''Government'',
                SliderLi False ''works/project-detail.html#id=2'' ''Second'' ''Client Two''
                  ''Corporate'']
          \<and> attrs c' ''data-has-fallback'' = None
          \<and> style c' ''opacity'' = Some ''1'')"
proof -
  have a: "dom home_page ''#homepage-slider'' = Some static_slider"
    by (simp add: home_page_def)
  have b: "attrs static_slider ''data-has-fallback'' = Some ''true''"
    by (simp add: static_slider_def)
  have c: "list_all (\<lambda>(d, k). quiet k) (timers home_page)"
    by (simp add: home_page_def)
  have d: "timers home_page = []" "now home_page = 0" by (simp_all add: home_page_def)
  show ?thesis
    using a b c
      staged_transition [OF a b c, of "[project1, project2, project3]" 299]
      staged_transition [OF a b c, of "[project1, project2, project3]" 300]
    by (simp add: d slider_markup_two)
qed

text \<open>
  Claim C4 as stated fails when two renders overlap. The flag is removed by the swap
  only, so a render that comes 100 ms after another still finds it and stages a second
  transition. At 299 ms the content is still the static one; at 300 ms the swap of the
  first render replaces it, 200 ms after the second render ran.
\<close>
theorem staged_transition_counterexample:
  "map_option (\<lambda>c. attrs c ''data-has-fallback'')
       (dom (advance 100 (snd (renderHomepageSlider [project1, project2] home_page)))
          ''#homepage-slider'') = Some (Some ''true'')
   \<and> now (advance 100 (snd (renderHomepageSlider [project1, project2] home_page))) = 100
   \<and> map_option children
       (dom (advance 299
               (snd (renderHomepageSlider [project3]
                  (advance 100 (snd (renderHomepageSlider [project1, project2] home_page))))))
          ''#homepage-slider'') = Some (children static_slider)
   \<and> map_option children
       (dom (advance 300
               (snd (renderHomepageSlider [project3]
                  (advance 100 (snd (renderHomepageSlider [project1, project2] home_page))))))
          ''#homepage-slider'')
       = Some [CursorPlayer [''v1.mp4'', ''v2.mp4''],
               SliderLi True ''works/project-detail.html#id=1'' ''The Abu Dhabi Plan''
                 ''Abu Dhabi Executive Council'' ''Government'',
               SliderLi False ''works/project-detail.html#id=2'' ''Second'' ''Client Two''
                 ''Corporate'']
   \<and> children static_slider \<noteq>
         [CursorPlayer [''v1.mp4'', ''v2.mp4''],
          SliderLi True ''works/project-detail.html#id=1'' ''The Abu Dhabi Plan''
            ''Abu Dhabi Executive Council'' ''Government'',
          SliderLi False ''works/project-detail.html#id=2'' ''Second'' ''Client Two''
            ''Corporate'']"
  by code_simp

subsection \<open>Slider and grid\<close>






subsection \<open>Absent mount points\<close>

text \<open>
  Claim C8, as amended. When the mount point is not in the document, a render call
  returns normally and changes nothing but the console: the works list and the homepage
  grid log their entry message and a warning, whatever the listing; the homepage slider
  logs its entry message and a message at the level \<open>log\<close>; the contact renderer
  (both mount points absent, any payload, even \<open>undefined\<close>) and the about renderer
  (both mount points absent, the payload an object) log their entry message only.
\<close>
theorem render_absent_mount:
  "(dom s ''#works-list-project'' = None \<longrightarrow>
      renderWorksProjects ps s =
        (None, s\<lparr>console := console s @ [(Log, ''Rendering projects for works page...''),
                                           (Warn, ''Works list container not found'')]\<rparr>))
   \<and> (dom s ''#works'' = None \<longrightarrow>
      renderIndexProjects ps s =
        (None, s\<lparr>console := console s @ [(Log, ''Rendering projects for index page...''),
                                           (Warn, ''Works container not found'')]\<rparr>))
   \<and> (dom s ''#homepage-slider'' = None \<longrightarrow>
      renderHomepageSlider ps s =
        (None, s\<lparr>console := console s @ [(Log, ''Rendering homepage slider...''),
                                           (Log, ''Homepage slider container not found'')]\<rparr>))
   \<and> (dom s ''.list--staff'' = None \<and> dom s ''.box--address'' = None \<longrightarrow>
      renderContactContent pageData s =
        (None, s\<lparr>console := console s @ [(Log, ''Rendering contact page content...'')]\<rparr>))
   \<and> (dom s ''.box--about'' = None \<and> dom s ''.player-link'' = None \<longrightarrow>
      renderAboutContent (Some pd) s =
        (None, s\<lparr>console := console s @ [(Log, ''Rendering about page content...'')]\<rparr>))"
  by (simp add: renderWorksProjects_def renderIndexProjects_def renderHomepageSlider_def
      renderContactContent_def renderAboutContent_def Let_def say_def)

theorem render_absent_mount_witness:
  "dom blank_page ''#works-list-project'' = None
   \<and> renderWorksProjects [project1, project2] blank_page =
        (None, blank_page\<lparr>console := [(Log, ''Rendering projects for works page...''),
                                         (Warn, ''Works list container not found'')]\<rparr>)
   \<and> dom blank_page ''#works'' = None
   \<and> renderIndexProjects [project1, project2] blank_page =
        (None, blank_page\<lparr>console := [(Log, ''Rendering projects for index page...''),
                                         (Warn, ''Works container not found'')]\<rparr>)
   \<and> dom blank_page ''#homepage-slider'' = None
   \<and> renderHomepageSlider [project1, project2] blank_page =
        (None, blank_page\<lparr>console := [(Log, ''Rendering homepage slider...''),
                                         (Log, ''Homepage slider container not found'')]\<rparr>)
   \<and> dom blank_page ''.list--staff'' = None \<and> dom blank_page ''.box--address'' = None
   \<and> renderContactContent None blank_page =
        (None, blank_page\<lparr>console := [(Log, ''Rendering contact page content...'')]\<rparr>)
   \<and> dom blank_page ''.box--about'' = None \<and> dom blank_page ''.player-link'' = None
   \<and> renderAboutContent (Some about_data) blank_page =
        (None, blank_page\<lparr>console := [(Log, ''Rendering about page content...'')]\<rparr>)"
  using render_absent_mount [of blank_page "[project1, project2]" None about_data]
  by (simp add: blank_page_def)

text \<open>
  Claim C8 as stated fails. On a document without \<open>#page-title\<close>,
  \<open>renderProjectDetail\<close> throws on its first element write. The about renderer and the
  slider log no warning when their mount points are absent.
\<close>
theorem render_absent_mount_counterexample:
  "dom blank_page ''#page-title'' = None
   \<and> renderProjectDetail (Some project1) blank_page =
        (Some TypeError, blank_page\<lparr>console := [(Log, ''Rendering project detail:'')]\<rparr>)
   \<and> dom blank_page ''.box--about'' = None \<and> dom blank_page ''.player-link'' = None
   \<and> list_all (\<lambda>(l, m). l \<noteq> Warn)
        (console (snd (renderAboutContent (Some about_data) blank_page)))
   \<and> dom blank_page ''#homepage-slider'' = None
   \<and> list_all (\<lambda>(l, m). l \<noteq> Warn)
        (console (snd (renderHomepageSlider [project1, project2] blank_page)))"
  by (simp add: renderProjectDetail_def and_then_def on_element_def renderAboutContent_def
      renderHomepageSlider_def Let_def say_def blank_page_def)

section \<open>Properties of the navigation watcher\<close>

subsection \<open>Auxiliary facts\<close>

lemma elapse_cases:
  "elapse t s =
     (case pop_timer (pending s) of
        None \<Rightarrow> s\<lparr>clock := max (clock s) t\<rparr>
      | Some ((due, k), rest) \<Rightarrow>
          if due \<le> t
          then elapse t (run_wtask k (s\<lparr>pending := rest, clock := max (clock s) due\<rparr>))
          else s\<lparr>clock := max (clock s) t\<rparr>)"
  by (rule elapse.simps)

lemma elapse_invariant:
  assumes init: "P s"
    and step: "\<And>s due k rest. P s \<Longrightarrow> pop_timer (pending s) = Some ((due, k), rest) \<Longrightarrow>
                 due \<le> t \<Longrightarrow> P (run_wtask k (s\<lparr>pending := rest, clock := max (clock s) due\<rparr>))"
    and tick: "\<And>s. P s \<Longrightarrow> P (s\<lparr>clock := max (clock s) t\<rparr>)"
  shows "P (elapse t s)"
  using assms
proof (induction t s rule: elapse.induct)
  case (1 t s)
  note init = "1.prems"(1) and step = "1.prems"(2) and tick = "1.prems"(3)
  show ?case
  proof (cases "pop_timer (pending s)")
    case None
    with init tick show ?thesis
      by (simp add: elapse_cases [of t s])
  next
    case (Some r)
    obtain due k rest where r: "r = ((due, k), rest)" by (cases r) auto
    have p: "pop_timer (pending s) = Some ((due, k), rest)" using Some r by simp
    show ?thesis
    proof (cases "due \<le> t")
      case True
      have "P (run_wtask k (s\<lparr>pending := rest, clock := max (clock s) due\<rparr>))"
        by (rule step [OF init p True])
      from "1.IH" [OF p refl refl True this step tick]
      have "P (elapse t (run_wtask k (s\<lparr>pending := rest, clock := max (clock s) due\<rparr>)))" .
      with p True show ?thesis by (simp add: elapse_cases [of t s])
    next
      case False
      with init tick p show ?thesis by (simp add: elapse_cases [of t s])
    qed
  qed
qed

lemma elapse_all_later:
  "(d, k) \<in> set (pending (elapse t s)) \<Longrightarrow> t < d"
proof (induction t s rule: elapse.induct)
  case (1 t s)
  show ?case
  proof (cases "pop_timer (pending s)")
    case None
    with "1.prems" pop_timer_None [OF None] show ?thesis
      by (simp add: elapse_cases [of t s])
  next
    case (Some r)
    obtain due k' rest where r: "r = ((due, k'), rest)" by (cases r) auto
    have p: "pop_timer (pending s) = Some ((due, k'), rest)" using Some r by simp
    show ?thesis
    proof (cases "due \<le> t")
      case True
      with "1.prems" p
      have "(d, k) \<in> set (pending (elapse t (run_wtask k' (s\<lparr>pending := rest, clock := max (clock s) due\<rparr>))))"
        by (simp add: elapse_cases [of t s])
      from "1.IH" [OF p refl refl True this] show ?thesis .
    next
      case False
      with "1.prems" p have "(d, k) \<in> set (pending s)"
        by (simp add: elapse_cases [of t s])
      with pop_timer_least [OF p, of "(d, k)"] False
      show ?thesis by simp
    qed
  qed
qed

lemma loader_for_cases:
  "loader_for slug = Some f \<Longrightarrow>
     (slug = ''contact'' \<and> f = loadContactContent) \<or> (slug = ''about'' \<and> f = loadAboutContent)
     \<or> (slug = ''works'' \<and> f = loadProjects) \<or> (slug = ''homepage'' \<and> f = loadIndexProjects)"
  by (simp add: loader_for_def split: if_splits)

lemma call_loader_defined:
  assumes "loader_for slug = Some f" and "loaders s f"
  shows "call_loader slug s = (None, s\<lparr>calls := calls s @ [f]\<rparr>)"
  using loader_for_cases [OF assms(1)] assms(2)
  by (elim disjE conjE) (simp_all add: call_loader_def)

lemma call_loader_fields:
  "call_loader slug s = (r, s') \<Longrightarrow>
   loaders s' = loaders s \<and> targetSlug s' = targetSlug s
   \<and> contentChangeDetected s' = contentChangeDetected s \<and> doc s' = doc s
   \<and> (calls s' = calls s \<or> (\<exists>f. loader_for slug = Some f \<and> loaders s f \<and> calls s' = calls s @ [f]))"
  unfolding call_loader_def loader_for_def
  by (simp split: if_splits) auto

lemma template_known: "loader_for slug = Some f \<Longrightarrow> template_of slug \<noteq> []"
  using loader_for_cases [of slug f]
  by (elim disjE conjE | simp add: template_of_def)+

lemma updateBodyClass_fields [simp]:
  "loaders (updateBodyClass sl s) = loaders s" "targetSlug (updateBodyClass sl s) = targetSlug s"
  "contentChangeDetected (updateBodyClass sl s) = contentChangeDetected s"
  "doc (updateBodyClass sl s) = doc s" "calls (updateBodyClass sl s) = calls s"
  "headerConfig (updateBodyClass sl s) = headerConfig s"
  by (simp_all add: updateBodyClass_def Let_def)

lemma contentLoaded_loader:
  "contentLoaded (Some slug) d \<Longrightarrow> \<exists>f. loader_for slug = Some f"
  by (simp add: contentLoaded_def loader_for_def split: if_splits)

lemma length_le_one: "length xs \<le> 1 \<Longrightarrow> xs = [] \<or> (\<exists>x. xs = [x])"
  by (cases xs) auto

lemma awaiting_pending:
  "awaiting slug s \<Longrightarrow> pending s = [] \<or> (\<exists>due. pending s = [(due, DebounceCheck)])"
  using length_le_one [of "pending s"] by (auto simp: awaiting_def)

lemma confirmed_pending:
  "confirmed b slug s \<Longrightarrow> \<exists>due. pending s = [(due, ResetIntent)] \<and> due \<le> b"
  using length_le_one [of "pending s"] by (auto simp: confirmed_def)

lemma doc_irrelevant [simp]:
  "awaiting slug (s\<lparr>doc := d\<rparr>) = awaiting slug s"
  "confirmed b slug (s\<lparr>doc := d\<rparr>) = confirmed b slug s"
  "idle (s\<lparr>doc := d\<rparr>) = idle s"
  by (simp_all add: awaiting_def confirmed_def idle_def)

lemma on_mutation_skips:
  "contentChangeDetected s \<or> targetSlug s = None \<Longrightarrow> on_mutation s = s"
  by (auto simp: on_mutation_def has_target_def)

lemma pop_timer_single: "pop_timer [x] = Some (x, [])"
  by simp

text \<open>The check of an intent that awaits confirmation, nothing else pending.\<close>

lemma check_on_course:
  assumes aw: "awaiting slug s" and p: "pending s = []" and c: "calls s = c0"
  shows "on_course c0 slug (debounced_check s)"
proof (cases "contentLoaded (targetSlug s) (doc s)")
  case False
  then have "debounced_check s = s" by (simp add: debounced_check_def)
  with aw c show ?thesis by (simp add: on_course_def)
next
  case True
  from aw have t: "targetSlug s = Some slug" and nd: "\<not> contentChangeDetected s"
    and ne: "slug \<noteq> []" by (simp_all add: awaiting_def)
  from True t obtain f where f: "loader_for slug = Some f"
    using contentLoaded_loader [of slug "doc s"] by auto
  let ?s2 = "header_sync (updateBodyClass (targetSlug s) s)"
  have s2: "loaders ?s2 = loaders s" "targetSlug ?s2 = Some slug" "\<not> contentChangeDetected ?s2"
    "pending ?s2 = []" "calls ?s2 = c0" "clock ?s2 = clock s"
    using t nd p c by simp_all
  obtain r s3 where cl: "call_loader slug ?s2 = (r, s3)" by (cases "call_loader slug ?s2")
  from call_loader_fields [OF cl] call_loader_pending [OF cl] s2
  have s3: "loaders s3 = loaders s" "targetSlug s3 = Some slug" "\<not> contentChangeDetected s3"
    "pending s3 = []" "clock s3 = clock s"
    and cs: "calls s3 = c0 \<or> (\<exists>g. loader_for slug = Some g \<and> loaders s g \<and> calls s3 = c0 @ [g])"
    by auto
  have dc: "debounced_check s =
      (case r of Some err \<Rightarrow> s3\<lparr>uncaught := uncaught s3 @ [err]\<rparr>
       | None \<Rightarrow> s3\<lparr>contentChangeDetected := True,
                     pending := pending s3 @ [(clock s3 + 500, ResetIntent)]\<rparr>)"
    using True t cl by (simp add: debounced_check_def Let_def)
  show ?thesis
  proof (cases "loaders s f")
    case True
    from call_loader_defined [OF f, of ?s2] True s2
    have "call_loader slug ?s2 = (None, ?s2\<lparr>calls := calls ?s2 @ [f]\<rparr>)" by simp
    with cl have r: "r = None" and c3: "calls s3 = c0 @ [f]" using s2 by auto
    have "confirmed (clock (debounced_check s) + 500) slug (debounced_check s)"
      using s3 by (simp add: dc r confirmed_def)
    moreover have "calls (debounced_check s) = calls_after c0 slug (loaders (debounced_check s))"
      using s3 c3 f True by (simp add: dc r calls_after_def)
    ultimately show ?thesis by (simp add: on_course_def)
  next
    case False
    with cs f have c3: "calls s3 = c0" by auto
    show ?thesis
    proof (cases r)
      case None
      have "confirmed (clock (debounced_check s) + 500) slug (debounced_check s)"
        using s3 by (simp add: dc None confirmed_def)
      moreover have "calls (debounced_check s) = calls_after c0 slug (loaders (debounced_check s))"
        using s3 c3 f False by (simp add: dc None calls_after_def)
      ultimately show ?thesis by (simp add: on_course_def)
    next
      case (Some err)
      have "awaiting slug (debounced_check s)"
        using s3 ne by (simp add: dc Some awaiting_def)
      moreover have "calls (debounced_check s) = c0" using c3 by (simp add: dc Some)
      ultimately show ?thesis by (simp add: on_course_def)
    qed
  qed
qed

lemma on_course_task:
  assumes oc: "on_course c0 slug s" and pop: "pop_timer (pending s) = Some ((due, k), rest)"
  shows "on_course c0 slug (run_wtask k (s\<lparr>pending := rest, clock := max (clock s) due\<rparr>))"
proof -
  let ?s' = "s\<lparr>pending := rest, clock := max (clock s) due\<rparr>"
  from oc consider
      (a) "awaiting slug s" "calls s = c0"
    | (b) "confirmed (clock s + 500) slug s" "calls s = calls_after c0 slug (loaders s)"
    | (c) "idle s"
    by (auto simp: on_course_def)
  then show ?thesis
  proof cases
    case a
    from awaiting_pending [OF a(1)] pop have p: "pending s = [(due, DebounceCheck)]"
      by auto
    with pop have k: "k = DebounceCheck" and rest: "rest = []" by simp_all
    have "awaiting slug ?s'" using a(1) by (simp add: awaiting_def rest)
    moreover have "pending ?s' = []" by (simp add: rest)
    moreover have "calls ?s' = c0" using a(2) by simp
    ultimately have "on_course c0 slug (debounced_check ?s')" by (rule check_on_course)
    then show ?thesis by (simp add: run_wtask_def k)
  next
    case b
    from confirmed_pending [OF b(1)] pop obtain d where p: "pending s = [(d, ResetIntent)]"
      by auto
    with pop have k: "k = ResetIntent" and rest: "rest = []" by simp_all
    have "idle (reset_intent ?s')" by (simp add: idle_def reset_intent_def rest)
    moreover have "calls (reset_intent ?s') = calls_after c0 slug (loaders (reset_intent ?s'))"
      using b(2) by (simp add: reset_intent_def)
    ultimately show ?thesis by (simp add: run_wtask_def k on_course_def)
  next
    case c
    with pop show ?thesis by (simp add: idle_def)
  qed
qed

lemma on_course_tick:
  assumes "on_course c0 slug s" and "clock s \<le> n"
  shows "on_course c0 slug (s\<lparr>clock := n\<rparr>)"
proof -
  have "confirmed (clock s + 500) slug s \<Longrightarrow> confirmed (n + 500) slug (s\<lparr>clock := n\<rparr>)"
    using assms(2) by (auto simp: confirmed_def list_all_iff)
  with assms(1) show ?thesis
    by (auto simp: on_course_def awaiting_def idle_def)
qed

lemma on_course_elapse:
  assumes "on_course c0 slug s"
  shows "on_course c0 slug (elapse t s)"
proof (rule elapse_invariant [where P = "on_course c0 slug"])
  show "on_course c0 slug s" by (rule assms)
next
  fix s :: watcher and due k rest
  assume "on_course c0 slug s" "pop_timer (pending s) = Some ((due, k), rest)"
  then show "on_course c0 slug (run_wtask k (s\<lparr>pending := rest, clock := max (clock s) due\<rparr>))"
    by (rule on_course_task)
next
  fix s :: watcher
  assume "on_course c0 slug s"
  then show "on_course c0 slug (s\<lparr>clock := max (clock s) t\<rparr>)"
    by (rule on_course_tick) simp
qed

lemma on_course_mutation:
  assumes "on_course c0 slug s"
  shows "on_course c0 slug (on_mutation (s\<lparr>doc := d\<rparr>))"
proof -
  from assms consider
      (a) "awaiting slug s" "calls s = c0"
    | (b) "confirmed (clock s + 500) slug s" "calls s = calls_after c0 slug (loaders s)"
    | (c) "idle s" "calls s = calls_after c0 slug (loaders s)"
    by (auto simp: on_course_def)
  then show ?thesis
  proof cases
    case a
    from awaiting_pending [OF a(1)]
    have "filter (\<lambda>(due, k). k \<noteq> DebounceCheck) (pending s) = []" by auto
    with a show ?thesis
      by (simp add: on_mutation_def has_target_def awaiting_def on_course_def)
  next
    case b
    then have "on_mutation (s\<lparr>doc := d\<rparr>) = s\<lparr>doc := d\<rparr>"
      by (intro on_mutation_skips) (simp add: confirmed_def)
    with b show ?thesis by (simp add: on_course_def)
  next
    case c
    then have "on_mutation (s\<lparr>doc := d\<rparr>) = s\<lparr>doc := d\<rparr>"
      by (intro on_mutation_skips) (simp add: idle_def)
    with c show ?thesis by (simp add: on_course_def)
  qed
qed

lemma on_course_run:
  assumes "on_course c0 slug s" and "list_all (\<lambda>e. \<not> is_click e) es"
  shows "on_course c0 slug (run es s)"
  using assms
proof (induction es arbitrary: s)
  case Nil
  then show ?case by (simp add: run_def)
next
  case (Cons e es)
  from Cons.prems have ne: "\<not> is_click e" and rest: "list_all (\<lambda>e. \<not> is_click e) es" by simp_all
  have "on_course c0 slug (step s e)"
  proof (cases e)
    case (Click tgt)
    with ne show ?thesis by simp
  next
    case (Mutation d)
    with Cons.prems(1) show ?thesis by (simp add: on_course_mutation)
  next
    case (Wait n)
    with Cons.prems(1) show ?thesis by (simp add: on_course_elapse)
  qed
  from Cons.IH [OF this rest] show ?case by (simp add: run_def)
qed

lemma check_confirms:
  assumes t: "targetSlug s = Some slug" and l: "contentLoaded (Some slug) (doc s)"
    and f: "loader_for slug = Some f" and d: "loaders s f"
  shows "debounced_check s =
     (header_sync (updateBodyClass (Some slug) s))
       \<lparr>calls := calls s @ [f], contentChangeDetected := True,
        pending := pending s @ [(clock s + 500, ResetIntent)]\<rparr>"
proof -
  let ?s2 = "header_sync (updateBodyClass (Some slug) s)"
  have "call_loader slug ?s2 = (None, ?s2\<lparr>calls := calls ?s2 @ [f]\<rparr>)"
    using call_loader_defined [OF f, of ?s2] d by simp
  then show ?thesis
    using t l by (simp add: debounced_check_def Let_def)
qed

lemma confirmed_clock [simp]: "confirmed b slug (s\<lparr>clock := n\<rparr>) = confirmed b slug s"
  by (simp add: confirmed_def)

lemma idle_clock [simp]: "idle (s\<lparr>clock := n\<rparr>) = idle s"
  by (simp add: idle_def)

lemma confirmed_mono: "confirmed b slug s \<Longrightarrow> b \<le> b' \<Longrightarrow> confirmed b' slug s"
  by (auto simp: confirmed_def list_all_iff)

lemma settled_elapse:
  assumes st: "confirmed b slug s \<or> idle s" and cs: "calls s = cs"
  shows "(confirmed b slug (elapse t s) \<or> idle (elapse t s)) \<and> calls (elapse t s) = cs
     \<and> (b \<le> t \<longrightarrow> idle (elapse t s))"
proof -
  let ?P = "\<lambda>s'::watcher. (confirmed b slug s' \<or> idle s') \<and> calls s' = cs"
  have P: "?P (elapse t s)"
  proof (rule elapse_invariant [where P = ?P])
    show "?P s" using st cs by simp
  next
    fix s' :: watcher and due k rest
    assume P: "?P s'" and pop: "pop_timer (pending s') = Some ((due, k), rest)"
    let ?s'' = "s'\<lparr>pending := rest, clock := max (clock s') due\<rparr>"
    from P pop have c: "confirmed b slug s'" by (auto simp: idle_def)
    from confirmed_pending [OF c] pop have k: "k = ResetIntent" and rest: "rest = []" by auto
    have "idle (reset_intent ?s'')" by (simp add: idle_def reset_intent_def rest)
    moreover have "calls (reset_intent ?s'') = cs" using P by (simp add: reset_intent_def)
    ultimately show "?P (run_wtask k ?s'')" by (simp add: run_wtask_def k)
  next
    fix s' :: watcher assume "?P s'"
    then show "?P (s'\<lparr>clock := max (clock s') t\<rparr>)" by simp
  qed
  have "idle (elapse t s)" if "b \<le> t"
  proof (rule ccontr)
    assume "\<not> idle (elapse t s)"
    with P have "confirmed b slug (elapse t s)" by simp
    from confirmed_pending [OF this] obtain due
      where "pending (elapse t s) = [(due, ResetIntent)]" "due \<le> b" by auto
    with elapse_all_later [of due ResetIntent t s] that show False by simp
  qed
  with P show ?thesis by simp
qed

lemma clock_on_mutation [simp]: "clock (on_mutation s) = clock s"
  by (simp add: on_mutation_def)

lemma confirm_now:
  assumes oc: "on_course c0 slug s" and sig: "contentLoaded (Some slug) d" and q: "150 \<le> q"
    and f: "loader_for slug = Some f" and lf: "loaders s f"
  shows "calls (elapse (clock s + q) (on_mutation (s\<lparr>doc := d\<rparr>))) = c0 @ [f]
     \<and> ((targetSlug (elapse (clock s + q) (on_mutation (s\<lparr>doc := d\<rparr>))) = Some slug
          \<and> contentChangeDetected (elapse (clock s + q) (on_mutation (s\<lparr>doc := d\<rparr>))))
         \<or> idle (elapse (clock s + q) (on_mutation (s\<lparr>doc := d\<rparr>))))
     \<and> (650 \<le> q \<longrightarrow> idle (elapse (clock s + q) (on_mutation (s\<lparr>doc := d\<rparr>))))"
proof -
  let ?t = "clock s + q"
  let ?s1 = "on_mutation (s\<lparr>doc := d\<rparr>)"
  have after: "calls_after c0 slug (loaders s) = c0 @ [f]"
    using f lf by (simp add: calls_after_def)
  from oc consider
      (a) "awaiting slug s" "calls s = c0"
    | (b) "confirmed (clock s + 500) slug s \<or> idle s" "calls s = c0 @ [f]"
    by (auto simp: on_course_def after)
  then have "\<exists>b. b \<le> clock s + 650 \<and> (\<exists>s2. elapse ?t ?s1 = elapse ?t s2
      \<and> (confirmed b slug s2 \<or> idle s2) \<and> calls s2 = c0 @ [f])"
  proof cases
    case a
    then have t: "targetSlug s = Some slug" and ne: "slug \<noteq> []"
      and nd: "\<not> contentChangeDetected s" by (simp_all add: awaiting_def)
    from awaiting_pending [OF a(1)]
    have "filter (\<lambda>(due, k). k \<noteq> DebounceCheck) (pending s) = []" by auto
    then have s1: "?s1 = s\<lparr>doc := d, pending := [(clock s + 150, DebounceCheck)]\<rparr>"
      using t ne nd by (simp add: on_mutation_def has_target_def)
    let ?s0 = "s\<lparr>doc := d, pending := [], clock := clock s + 150\<rparr>"
    have e: "elapse ?t ?s1 = elapse ?t (debounced_check ?s0)"
      using q
      by (simp add: s1 run_wtask_def max_def
          elapse_cases [of ?t "s\<lparr>doc := d, pending := [(clock s + 150, DebounceCheck)]\<rparr>"])
    have chk: "debounced_check ?s0 =
        (header_sync (updateBodyClass (Some slug) ?s0))
          \<lparr>calls := calls ?s0 @ [f], contentChangeDetected := True,
           pending := pending ?s0 @ [(clock ?s0 + 500, ResetIntent)]\<rparr>"
      by (rule check_confirms) (use t sig f lf in simp_all)
    have "confirmed (clock s + 650) slug (debounced_check ?s0)"
      using t by (simp add: chk confirmed_def)
    moreover have "calls (debounced_check ?s0) = c0 @ [f]"
      using a(2) by (simp add: chk)
    ultimately show ?thesis using e by blast
  next
    case b
    then have "?s1 = s\<lparr>doc := d\<rparr>"
      by (intro on_mutation_skips) (auto simp: confirmed_def idle_def)
    moreover have "confirmed (clock s + 500) slug (s\<lparr>doc := d\<rparr>) \<or> idle (s\<lparr>doc := d\<rparr>)"
      using b(1) by simp
    moreover have "calls (s\<lparr>doc := d\<rparr>) = c0 @ [f]" using b(2) by simp
    ultimately show ?thesis
      by (intro exI [of _ "clock s + 500"] conjI exI [of _ "s\<lparr>doc := d\<rparr>"]) simp_all
  qed
  then obtain b s2 where b: "b \<le> clock s + 650" and e: "elapse ?t ?s1 = elapse ?t s2"
    and st: "confirmed b slug s2 \<or> idle s2" and cs: "calls s2 = c0 @ [f]" by blast
  from settled_elapse [OF st cs, of ?t] b
  show ?thesis by (auto simp: e confirmed_def)
qed

lemma pop_timer_filter_length:
  "pop_timer ts = Some (x, rest) \<Longrightarrow>
   length (filter P ts) = (if P x then 1 else 0) + length (filter P rest)"
proof (induction ts arbitrary: x rest)
  case Nil
  then show ?case by simp
next
  case (Cons a ts)
  from pop_timer_Cons [OF Cons.prems] show ?case
  proof (elim disjE conjE exE)
    assume "ts = []" "x = a" "rest = []"
    then show ?thesis by simp
  next
    fix y ys assume "pop_timer ts = Some (y, ys)" "fst a \<le> fst y" "x = a" "rest = ts"
    then show ?thesis by simp
  next
    fix y ys
    assume p: "pop_timer ts = Some (y, ys)" and "\<not> fst a \<le> fst y"
      and y: "x = y" and r: "rest = a # ys"
    from Cons.IH [of x ys] p y
    have "length (filter P ts) = (if P x then 1 else 0) + length (filter P ys)" by simp
    with r show ?thesis by simp
  qed
qed

lemma checks_fields [simp]:
  "checks (s\<lparr>doc := d\<rparr>) = checks s" "checks (s\<lparr>clock := n\<rparr>) = checks s"
  "checks (s\<lparr>targetSlug := t\<rparr>) = checks s" "checks (s\<lparr>contentChangeDetected := c\<rparr>) = checks s"
  "checks (s\<lparr>uncaught := u\<rparr>) = checks s"
  by (simp_all add: checks_def)

lemma filter_checks_cleared [simp]:
  "filter (\<lambda>(due, k). k = DebounceCheck) (filter (\<lambda>(due, k). k \<noteq> DebounceCheck) ts) = []"
  by (induction ts) auto

lemma checks_on_mutation:
  "checks (on_mutation s) = checks s \<or> checks (on_mutation s) = 1"
  by (simp add: on_mutation_def checks_def del: filter_filter)

text \<open>What the debounced check does to the intent, the pending checks and the calls.\<close>

lemma check_outcome:
  assumes t: "targetSlug s = Some b \<or> targetSlug s = None"
  shows "targetSlug (debounced_check s) = targetSlug s
     \<and> loaders (debounced_check s) = loaders s
     \<and> checks (debounced_check s) = checks s
     \<and> (calls (debounced_check s) = calls s
         \<or> (calls (debounced_check s) = calls_after (calls s) b (loaders s)
             \<and> contentChangeDetected (debounced_check s)))"
proof (cases "contentLoaded (targetSlug s) (doc s)")
  case False
  then have "debounced_check s = s" by (simp add: debounced_check_def)
  then show ?thesis by simp
next
  case True
  with t have tb: "targetSlug s = Some b" by (auto simp: contentLoaded_def)
  from True tb obtain f where f: "loader_for b = Some f"
    using contentLoaded_loader [of b "doc s"] by auto
  let ?s2 = "header_sync (updateBodyClass (targetSlug s) s)"
  obtain r s3 where cl: "call_loader b ?s2 = (r, s3)" by (cases "call_loader b ?s2")
  from call_loader_fields [OF cl] call_loader_pending [OF cl]
  have s3: "loaders s3 = loaders s" "targetSlug s3 = targetSlug s" "pending s3 = pending s"
    and cs: "calls s3 = calls s \<or> (\<exists>g. loader_for b = Some g \<and> loaders s g \<and> calls s3 = calls s @ [g])"
    by auto
  have dc: "debounced_check s =
      (case r of Some err \<Rightarrow> s3\<lparr>uncaught := uncaught s3 @ [err]\<rparr>
       | None \<Rightarrow> s3\<lparr>contentChangeDetected := True,
                     pending := pending s3 @ [(clock s3 + 500, ResetIntent)]\<rparr>)"
    using True tb cl by (simp add: debounced_check_def Let_def)
  have ch: "checks (debounced_check s) = checks s"
    using s3 by (cases r) (simp_all add: dc checks_def)
  have fl: "targetSlug (debounced_check s) = targetSlug s" "loaders (debounced_check s) = loaders s"
    using s3 by (cases r; simp add: dc)+
  have "calls (debounced_check s) = calls s
         \<or> (calls (debounced_check s) = calls_after (calls s) b (loaders s)
             \<and> contentChangeDetected (debounced_check s))"
  proof (cases "loaders s f")
    case True
    from call_loader_defined [OF f, of ?s2] True
    have "call_loader b ?s2 = (None, ?s2\<lparr>calls := calls ?s2 @ [f]\<rparr>)" by simp
    with cl have r: "r = None" and c3: "calls s3 = calls s @ [f]" by auto
    show ?thesis using c3 f True by (simp add: dc r calls_after_def)
  next
    case False
    with cs f have "calls s3 = calls s" by auto
    then show ?thesis by (cases r) (simp_all add: dc)
  qed
  with ch fl show ?thesis by simp
qed

lemma latest_only_task:
  assumes inv: "latest_only c0 b s" and pop: "pop_timer (pending s) = Some ((due, k), rest)"
  shows "latest_only c0 b (run_wtask k (s\<lparr>pending := rest, clock := max (clock s) due\<rparr>))"
proof -
  let ?s' = "s\<lparr>pending := rest, clock := max (clock s) due\<rparr>"
  from pop_timer_filter_length [OF pop, of "\<lambda>(due, k). k = DebounceCheck"]
  have n: "checks s = (if k = DebounceCheck then 1 else 0) + checks ?s'"
    by (simp add: checks_def)
  from inv have t: "targetSlug s = Some b \<or> targetSlug s = None" and le: "checks s \<le> 1"
    and c: "calls s = c0
          \<or> (calls s = calls_after c0 b (loaders s) \<and> checks s = 0
              \<and> (contentChangeDetected s \<or> targetSlug s = None))"
    by (simp_all add: latest_only_def)
  show ?thesis
  proof (cases k)
    case DebounceCheck
    with n le have z: "checks ?s' = 0" and one: "checks s = 1" by simp_all
    from c one have c0: "calls ?s' = c0" by auto
    from t have t': "targetSlug ?s' = Some b \<or> targetSlug ?s' = None" by simp
    from check_outcome [OF t'] z c0 t
    show ?thesis by (auto simp: latest_only_def run_wtask_def DebounceCheck)
  next
    case ResetIntent
    with n have "checks ?s' = checks s" by simp
    with le c show ?thesis
      by (auto simp: latest_only_def run_wtask_def ResetIntent reset_intent_def checks_def)
  qed
qed

lemma latest_only_elapse:
  assumes "latest_only c0 b s"
  shows "latest_only c0 b (elapse t s)"
proof (rule elapse_invariant [where P = "latest_only c0 b"])
  show "latest_only c0 b s" by (rule assms)
next
  fix s :: watcher and due k rest
  assume "latest_only c0 b s" "pop_timer (pending s) = Some ((due, k), rest)"
  then show "latest_only c0 b (run_wtask k (s\<lparr>pending := rest, clock := max (clock s) due\<rparr>))"
    by (rule latest_only_task)
next
  fix s :: watcher
  assume "latest_only c0 b s"
  then show "latest_only c0 b (s\<lparr>clock := max (clock s) t\<rparr>)"
    by (simp add: latest_only_def)
qed

lemma latest_only_mutation:
  assumes inv: "latest_only c0 b s"
  shows "latest_only c0 b (on_mutation (s\<lparr>doc := d\<rparr>))"
proof (cases "has_target s \<and> \<not> contentChangeDetected s")
  case False
  then have "on_mutation (s\<lparr>doc := d\<rparr>) = s\<lparr>doc := d\<rparr>"
    by (auto simp: on_mutation_def has_target_def)
  with inv show ?thesis by (simp add: latest_only_def)
next
  case True
  then have t: "targetSlug s \<noteq> None" and nd: "\<not> contentChangeDetected s"
    by (auto simp: has_target_def split: option.splits)
  with inv have c: "calls s = c0" and tb: "targetSlug s = Some b"
    by (auto simp: latest_only_def)
  have "checks (on_mutation (s\<lparr>doc := d\<rparr>)) = 1"
    using True by (simp add: on_mutation_def has_target_def checks_def del: filter_filter)
  moreover have "calls (on_mutation (s\<lparr>doc := d\<rparr>)) = c0"
    "targetSlug (on_mutation (s\<lparr>doc := d\<rparr>)) = Some b"
    using c tb by (simp_all add: on_mutation_def)
  ultimately show ?thesis by (simp add: latest_only_def)
qed

lemma latest_only_run:
  assumes "latest_only c0 b s" and "list_all (\<lambda>e. \<not> is_click e) es"
  shows "latest_only c0 b (run es s)"
  using assms
proof (induction es arbitrary: s)
  case Nil
  then show ?case by (simp add: run_def)
next
  case (Cons e es)
  from Cons.prems have ne: "\<not> is_click e" and rest: "list_all (\<lambda>e. \<not> is_click e) es" by simp_all
  have "latest_only c0 b (step s e)"
  proof (cases e)
    case (Click tgt)
    with ne show ?thesis by simp
  next
    case (Mutation d)
    with Cons.prems(1) show ?thesis by (simp add: latest_only_mutation)
  next
    case (Wait n)
    with Cons.prems(1) show ?thesis by (simp add: latest_only_elapse)
  qed
  from Cons.IH [OF this rest] show ?case by (simp add: run_def)
qed

text \<open>
  At most one debounced check is pending in every state the listener reaches: the
  observer clears the pending check before it sets one.
\<close>

lemma checks_step:
  assumes "checks s \<le> 1"
  shows "checks (step s e) \<le> 1"
proof (cases e)
  case (Click tgt)
  with assms show ?thesis
    by (simp add: on_click_def split: click_target.splits option.splits)
next
  case (Mutation d)
  with assms checks_on_mutation [of "s\<lparr>doc := d\<rparr>"] show ?thesis by auto
next
  case (Wait n)
  have "checks (elapse (clock s + n) s) \<le> 1"
  proof (rule elapse_invariant [where P = "\<lambda>s. checks s \<le> 1"])
    show "checks s \<le> 1" by (rule assms)
  next
    fix s :: watcher and due k rest
    assume le: "checks s \<le> 1" and pop: "pop_timer (pending s) = Some ((due, k), rest)"
    let ?s' = "s\<lparr>pending := rest, clock := max (clock s) due\<rparr>"
    from pop_timer_filter_length [OF pop, of "\<lambda>(due, k). k = DebounceCheck"] le
    have n: "checks ?s' \<le> 1" by (simp add: checks_def)
    show "checks (run_wtask k ?s') \<le> 1"
    proof (cases k)
      case DebounceCheck
      from pending_debounced_check [of ?s'] n show ?thesis
        by (auto simp: run_wtask_def DebounceCheck checks_def)
    next
      case ResetIntent
      with n show ?thesis by (simp add: run_wtask_def reset_intent_def checks_def)
    qed
  next
    fix s' :: watcher
    assume "checks s' \<le> 1"
    then show "checks (s'\<lparr>clock := max (clock s') (clock s + n)\<rparr>) \<le> 1" by simp
  qed
  with Wait show ?thesis by simp
qed

lemma checks_run:
  "checks s \<le> 1 \<Longrightarrow> checks (run es s) \<le> 1"
proof (induction es arbitrary: s)
  case Nil
  then show ?case by (simp add: run_def)
next
  case (Cons e es)
  from Cons.IH [OF checks_step [OF Cons.prems, of e]] show ?case by (simp add: run_def)
qed

lemma checks_watcher0: "checks watcher0 = 0"
  by (simp add: checks_def watcher0_def)

lemma run_append: "run (es @ es') s = run es' (run es s)"
  by (simp add: run_def)

lemma run_Cons: "run (e # es) s = run es (step s e)"
  by (simp add: run_def)

lemma loaders_on_mutation [simp]: "loaders (on_mutation s) = loaders s"
  by (simp add: on_mutation_def)

lemma loaders_debounced_check [simp]: "loaders (debounced_check s) = loaders s"
proof (cases "contentLoaded (targetSlug s) (doc s)")
  case False
  then show ?thesis by (simp add: debounced_check_def)
next
  case True
  let ?s2 = "header_sync (updateBodyClass (targetSlug s) s)"
  obtain r s3 where c: "call_loader (case targetSlug s of None \<Rightarrow> [] | Some t \<Rightarrow> t) ?s2 = (r, s3)"
    by (cases "call_loader (case targetSlug s of None \<Rightarrow> [] | Some t \<Rightarrow> t) ?s2")
  from call_loader_fields [OF c] have "loaders s3 = loaders s" by simp
  with True c show ?thesis by (cases r) (simp_all add: debounced_check_def Let_def)
qed

lemma loaders_run_wtask [simp]: "loaders (run_wtask k s) = loaders s"
  by (cases k) (simp_all add: run_wtask_def reset_intent_def)

lemma loaders_elapse [simp]: "loaders (elapse t s) = loaders s"
proof -
  let ?P = "\<lambda>s'::watcher. loaders s' = loaders s"
  have "?P (elapse t s)"
    by (rule elapse_invariant [where P = ?P]) simp_all
  then show ?thesis .
qed

lemma loaders_step [simp]: "loaders (step s e) = loaders s"
  by (cases e) (simp_all add: on_click_def split: click_target.splits option.splits)

lemma loaders_run [simp]: "loaders (run es s) = loaders s"
  by (induction es arbitrary: s) (simp_all add: run_def)

text \<open>A click on a navigation link takes the idle watcher to awaiting confirmation.\<close>

lemma click_from_idle:
  "idle s \<Longrightarrow> b \<noteq> [] \<Longrightarrow> awaiting b (step s (Click (NavLink (Some b))))"
  by (simp add: idle_def awaiting_def on_click_def)

lemma watcher0_idle: "idle watcher0"
  by (simp add: idle_def watcher0_def)

lemma awaiting_on_course: "awaiting slug s \<Longrightarrow> on_course (calls s) slug s"
  by (simp add: on_course_def)

subsection \<open>Confirmation of a route\<close>

text \<open>
  Claim C5 fails on the code. The reset that follows a confirmation is never cancelled,
  and it clears whatever intent there is when it fires. So a click within the 500 ms
  after a confirmation sets an intent that the reset of the previous one clears. Here
  the works route is confirmed at 150 ms, its reset due at 650 ms. The about link is
  clicked at 640 ms and the about page arrives at once, while the intent awaits
  confirmation. The reset fires at 650 ms; the debounced check at 790 ms finds no
  target; the about loader is never called and the watcher ends idle.
\<close>
theorem stale_reset_drops_intent:
  "calls (run first_visit watcher0) = [loadProjects]
   \<and> pending (run first_visit watcher0) = [(650, ResetIntent)]
   \<and> clock (run second_click watcher0) = 640
   \<and> targetSlug (run second_click watcher0) = Some ''about''
   \<and> \<not> contentChangeDetected (run second_click watcher0)
   \<and> contentLoaded (Some ''about'') about_doc
   \<and> calls (run (second_click @ [Mutation about_doc, Wait 650]) watcher0) = [loadProjects]
   \<and> idle (run (second_click @ [Mutation about_doc, Wait 650]) watcher0)"
  by code_simp

text \<open>
  With no reset of an earlier confirmation pending, a route is confirmed as claim C5
  says. Let an intent for a route await confirmation, with the loaders of
  \<open>site-config.js\<close> in place. Let any sequence of mutation batches and pauses follow,
  with no click, however the batches are spaced; let a last batch leave a document that
  shows a signature element of the route, and let at least 150 ms pass after it. Then
  the loader of the route has been called exactly once since the start, and nothing
  else has been called; the route is confirmed (the flag is set, or the intent has
  already been reset); and once 650 ms have passed after the last batch the watcher is
  idle again.
\<close>
theorem route_confirmed_once:
  assumes start: "awaiting slug s"
    and fns: "loaders s = all_loaders"
    and no_click: "list_all (\<lambda>e. \<not> is_click e) es"
    and sig: "contentLoaded (Some slug) d"
    and q: "150 \<le> q"
  shows "\<exists>f. loader_for slug = Some f
     \<and> calls (run (es @ [Mutation d, Wait q]) s) = calls s @ [f]
     \<and> ((targetSlug (run (es @ [Mutation d, Wait q]) s) = Some slug
          \<and> contentChangeDetected (run (es @ [Mutation d, Wait q]) s))
         \<or> idle (run (es @ [Mutation d, Wait q]) s))
     \<and> (650 \<le> q \<longrightarrow> idle (run (es @ [Mutation d, Wait q]) s))"
proof -
  let ?s1 = "run es s"
  obtain f where f: "loader_for slug = Some f"
    using contentLoaded_loader [OF sig] by auto
  have oc: "on_course (calls s) slug ?s1"
    by (rule on_course_run [OF awaiting_on_course [OF start] no_click])
  have lf: "loaders ?s1 f" using fns by (simp add: all_loaders_def)
  have r: "run (es @ [Mutation d, Wait q]) s = elapse (clock ?s1 + q) (on_mutation (?s1\<lparr>doc := d\<rparr>))"
    by (simp add: run_append run_Cons) (simp add: run_def)
  from confirm_now [OF oc sig q f lf] f show ?thesis
    by (simp add: r)
qed

lemma burst_no_click: "list_all (\<lambda>e. \<not> is_click e) burst"
  by (auto simp: burst_def list_all_iff)

theorem route_confirmed_once_witness:
  "awaiting ''works'' works_intent
   \<and> loaders works_intent = all_loaders
   \<and> list_all (\<lambda>e. \<not> is_click e) burst
   \<and> length burst = 18
   \<and> contentLoaded (Some ''works'') works_doc
   \<and> (150::nat) \<le> 150
   \<and> calls (run (burst @ [Mutation works_doc, Wait 150]) works_intent) = [loadProjects]"
proof -
  have a: "awaiting ''works'' works_intent"
    by (simp add: awaiting_def works_intent_def watcher0_def)
  have b: "loaders works_intent = all_loaders"
    by (simp add: works_intent_def watcher0_def)
  have c: "contentLoaded (Some ''works'') works_doc"
    by (simp add: contentLoaded_def works_doc_def found_def)
  have d: "(150::nat) \<le> 150" by simp
  have e: "calls works_intent = []" by (simp add: works_intent_def watcher0_def)
  have f: "loader_for ''works'' = Some loadProjects" by (simp add: loader_for_def)
  have g: "length burst = 18" by (simp add: burst_def eval_nat_numeral)
  show ?thesis
    using a b c g burst_no_click route_confirmed_once [OF a b burst_no_click c d]
    by (simp add: e f)
qed

text \<open>
  Ten mutation batches within the debounce window, the last of which shows the works
  page: one call, the body class of the works template, the flag set.
\<close>
lemma ten_mutations_one_call:
  "calls (run (burst @ [Mutation works_doc, Wait 150]) works_intent) = [loadProjects]
   \<and> bodyClasses (run (burst @ [Mutation works_doc, Wait 150]) works_intent) = [''template-projects'']
   \<and> contentChangeDetected (run (burst @ [Mutation works_doc, Wait 150]) works_intent)"
  by code_simp

subsection \<open>The latest intent\<close>

text \<open>
  Claim C6. There is one \<open>targetSlug\<close>: in every state with at most one check
  pending, so also while an earlier intent is unconfirmed, a click on a navigation link
  with a slug \<open>b\<close> overwrites the target with \<open>b\<close> and clears the flag, and
  changes nothing else. Whatever mutation batches and pauses follow (no further click),
  and whatever resets are pending, at most one loader call is made, and it is a call of
  the loader of \<open>b\<close>. If no reset is pending at the click, a last batch shows a
  signature element of \<open>b\<close> and 150 ms pass, that call has been made.
\<close>
theorem latest_intent_wins:
  assumes one_check: "checks s \<le> 1" and b: "b \<noteq> []"
    and no_click: "list_all (\<lambda>e. \<not> is_click e) es"
  shows "step s (Click (NavLink (Some b))) = s\<lparr>targetSlug := Some b, contentChangeDetected := False\<rparr>
     \<and> (calls (run (Click (NavLink (Some b)) # es) s) = calls s
         \<or> (\<exists>f. loader_for b = Some f \<and> calls (run (Click (NavLink (Some b)) # es) s) = calls s @ [f]))
     \<and> (list_all (\<lambda>(due, k). k = DebounceCheck) (pending s)
          \<and> contentLoaded (Some b) d \<and> 150 \<le> q \<and> loaders s = all_loaders \<longrightarrow>
          (\<exists>f. loader_for b = Some f
             \<and> calls (run (Click (NavLink (Some b)) # es @ [Mutation d, Wait q]) s) = calls s @ [f]))"
proof -
  let ?s1 = "s\<lparr>targetSlug := Some b, contentChangeDetected := False\<rparr>"
  have click: "step s (Click (NavLink (Some b))) = ?s1"
    using b by (simp add: on_click_def)
  have "latest_only (calls s) b ?s1"
    using one_check by (simp add: latest_only_def)
  from latest_only_run [OF this no_click]
  have "calls (run es ?s1) = calls s \<or> calls (run es ?s1) = calls_after (calls s) b (loaders s)"
    by (auto simp: latest_only_def)
  then have once: "calls (run es ?s1) = calls s
      \<or> (\<exists>f. loader_for b = Some f \<and> calls (run es ?s1) = calls s @ [f])"
    by (auto simp: calls_after_def split: option.splits if_splits)
  have live: "\<exists>f. loader_for b = Some f
             \<and> calls (run (es @ [Mutation d, Wait q]) ?s1) = calls s @ [f]"
    if none: "list_all (\<lambda>(due, k). k = DebounceCheck) (pending s)"
      and sig: "contentLoaded (Some b) d" and q: "150 \<le> q" and fns: "loaders s = all_loaders"
  proof -
    let ?s2 = "run es ?s1"
    from none have "filter (\<lambda>(due, k). k = DebounceCheck) (pending s) = pending s"
      by (simp add: list_all_iff)
    with one_check have "length (pending s) \<le> 1" by (simp add: checks_def)
    with none b have aw: "awaiting b ?s1" by (simp add: awaiting_def)
    have oc: "on_course (calls s) b ?s2"
      using on_course_run [OF awaiting_on_course [OF aw] no_click] by simp
    obtain f where f: "loader_for b = Some f"
      using contentLoaded_loader [OF sig] by auto
    have lf: "loaders ?s2 f" using fns by (simp add: all_loaders_def)
    have r: "run (es @ [Mutation d, Wait q]) ?s1 =
        elapse (clock ?s2 + q) (on_mutation (?s2\<lparr>doc := d\<rparr>))"
      by (simp add: run_append run_Cons) (simp add: run_def)
    from confirm_now [OF oc sig q f lf] f show ?thesis
      by (simp add: r)
  qed
  show ?thesis
    using click once live by (simp add: run_Cons)
qed

theorem latest_intent_wins_witness:
  "targetSlug works_pending = Some ''works'' \<and> \<not> contentChangeDetected works_pending
   \<and> checks works_pending \<le> 1
   \<and> ''about'' \<noteq> []
   \<and> step works_pending (Click (NavLink (Some ''about''))) =
       works_pending\<lparr>targetSlug := Some ''about'', contentChangeDetected := False\<rparr>
   \<and> list_all (\<lambda>(due, k). k = DebounceCheck) (pending works_pending)
   \<and> contentLoaded (Some ''about'') about_doc
   \<and> (150::nat) \<le> 150
   \<and> loaders works_pending = all_loaders
   \<and> calls (run [Click (NavLink (Some ''about'')), Mutation about_doc, Wait 150] works_pending)
       = [loadAboutContent]"
proof -
  have a: "checks works_pending \<le> 1"
    by (simp add: checks_def works_pending_def watcher0_def)
  have b: "''about'' \<noteq> []" by simp
  have c: "list_all (\<lambda>e. \<not> is_click e) []" by simp
  have d: "contentLoaded (Some ''about'') about_doc"
    by (simp add: contentLoaded_def about_doc_def found_def)
  have e: "loaders works_pending = all_loaders" by (simp add: works_pending_def watcher0_def)
  have f: "calls works_pending = []" "pending works_pending = [(170, DebounceCheck)]"
    "targetSlug works_pending = Some ''works''" "\<not> contentChangeDetected works_pending"
    by (simp_all add: works_pending_def watcher0_def)
  have g: "loader_for ''about'' = Some loadAboutContent" by (simp add: loader_for_def)
  show ?thesis
    using a d e latest_intent_wins [OF a b c, of about_doc 150]
    by (simp add: f g)
qed

end
